theory Spec2Isabelle
  imports Complex_Main
begin

section \<open>The wafer detector of wafer-detection.js\<close>

text \<open>
  The class \<^verbatim>\<open>WaferDetector\<close> is embedded as a record of its tunables, extended by
  its mutable fields. JavaScript numbers are modelled by their values, as \<^typ>\<open>real\<close>
  (scores, thresholds, distances, timestamps) or \<^typ>\<open>int\<close> (counts parsed by
  \<^verbatim>\<open>parseInt\<close>); \<^verbatim>\<open>NaN\<close> is outside the model. The OpenCV.js library is not part of the repository: what
  its calls return for the current frame is a parameter of every cycle (\<open>cv_frame\<close>), and
  the calls a cycle makes are recorded in the order the code makes them.
\<close>

subsection \<open>Double-precision arithmetic\<close>

text \<open>
  Arithmetic on numbers enters the decisions of the detector in three places: the product
  \<^verbatim>\<open>this.CONF_RATIO * n.distance\<close> of line 443 and the differences of lines 390 and
  510. A finite double is modelled by its value; \<open>fl\<close> rounds a real to 53 significant
  bits, ties to even, and the result of an operation on doubles is the rounded exact result.
  A decimal literal or a quotient that enters such an operation is a double as well.
  Overflow and underflow are outside the model.
\<close>

definition round_half_even :: "real \<Rightarrow> int" where
  "round_half_even y =
    (if y - of_int \<lfloor>y\<rfloor> < 1 / 2 then \<lfloor>y\<rfloor>
     else if 1 / 2 < y - of_int \<lfloor>y\<rfloor> then \<lfloor>y\<rfloor> + 1
     else if even \<lfloor>y\<rfloor> then \<lfloor>y\<rfloor> else \<lfloor>y\<rfloor> + 1)"

function expo_ge :: "real \<Rightarrow> int" where
  "expo_ge x = (if 2 \<le> x then expo_ge (x / 2) + 1 else 0)"
  by pat_completeness auto
termination
proof (relation "measure (\<lambda>x. nat \<lfloor>x\<rfloor>)")
  show "wf (measure (\<lambda>x::real. nat \<lfloor>x\<rfloor>))" by simp
next
  fix x :: real
  assume "2 \<le> x"
  then have "\<lfloor>x / 2\<rfloor> < \<lfloor>x\<rfloor>" and "0 < \<lfloor>x\<rfloor>" by linarith+
  then show "(x / 2, x) \<in> measure (\<lambda>x. nat \<lfloor>x\<rfloor>)" by simp
qed

function expo_lt :: "real \<Rightarrow> int" where
  "expo_lt x = (if 0 < x \<and> x < 1 then expo_lt (x * 2) - 1 else 0)"
  by pat_completeness auto
termination
proof (relation "measure (\<lambda>x. nat \<lceil>1 / x\<rceil>)")
  show "wf (measure (\<lambda>x::real. nat \<lceil>1 / x\<rceil>))" by simp
next
  fix x :: real
  assume a: "0 < x \<and> x < 1"
  then have "1 < 1 / x" by simp
  then have c: "2 \<le> \<lceil>1 / x\<rceil>" by linarith
  have "1 / (x * 2) = (1 / x) / 2" by simp
  also have "\<dots> \<le> of_int \<lceil>1 / x\<rceil> / 2" by (simp add: divide_right_mono)
  also have "\<dots> \<le> of_int (\<lceil>1 / x\<rceil> - 1)" using c by simp
  finally have "\<lceil>1 / (x * 2)\<rceil> \<le> \<lceil>1 / x\<rceil> - 1" by (simp only: ceiling_le_iff)
  with c a show "(x * 2, x) \<in> measure (\<lambda>x. nat \<lceil>1 / x\<rceil>)" by simp
qed

declare expo_ge.simps [simp del] expo_lt.simps [simp del]

definition expo :: "real \<Rightarrow> int" where
  "expo x = (if 1 \<le> \<bar>x\<bar> then expo_ge \<bar>x\<bar> else expo_lt \<bar>x\<bar>)"

definition fl :: "real \<Rightarrow> real" where
  "fl x =
    (if x = 0 then 0
     else of_int (round_half_even (x / 2 powi (expo x - 52))) * 2 powi (expo x - 52))"

definition fmul :: "real \<Rightarrow> real \<Rightarrow> real" where
  "fmul a b = fl (a * b)"

subsection \<open>Data\<close>

type_synonym quad = "real list"

type_synonym homography = "real list"

record tunables =
  INSTANT_TEMPLATE :: bool
  TMPL_SIZE :: int
  TMPL_THR :: real
  EDGE_TMPL :: bool
  CONF_RATIO :: real
  MIN_GOOD_MATCHES :: int
  MIN_INLIERS :: int
  SMOOTH_N :: int
  SHOW_DEBUG :: bool
  EXIT_ON_PASS :: bool
  PASS_HOLD_MS :: real
  PROC_W :: int
  PROC_H :: int
  REF_IMAGE_FILES :: "string list"

text \<open>
  An entry of \<^verbatim>\<open>this.refs\<close>: \<^verbatim>\<open>{name, kp, des, corners, tmpl, res, dataUrl}\<close>. The
  descriptor matrix is kept by its number of rows, the template and the response buffer by
  their sizes (columns and rows of \<^verbatim>\<open>tmpl\<close>, rows and columns of \<^verbatim>\<open>res\<close>).
\<close>

record reference =
  ref_name :: string
  ref_des_rows :: nat
  ref_corners :: quad
  ref_tmpl :: "(int \<times> int) option"
  ref_res :: "(int \<times> int) option"

record detector = tunables +
  refs :: "reference list"
  hits :: "bool list"
  passed :: bool
  passStartedAt :: "real option"
  isRunning :: bool
  lastQuad :: "quad option"
  outputText :: string
  statusCall :: "(bool \<times> int \<times> bool) option"

text \<open>
  The last two fields are what the page is told: \<open>outputText\<close> is the text set by
  \<^verbatim>\<open>updateOutput\<close>, and \<open>statusCall\<close> holds the arguments of the last call of
  \<^verbatim>\<open>updateStatus\<close> (lines 527-537): \<^verbatim>\<open>waferPresent\<close>, \<^verbatim>\<open>best.inliers\<close> and
  \<^verbatim>\<open>passed\<close>.
\<close>

text \<open>
  The variable \<^verbatim>\<open>lastTS\<close> belongs to a closure of \<^verbatim>\<open>_startDetectionLoop\<close>, not to
  the detector. A session is the detector together with the \<^verbatim>\<open>lastTS\<close> of every closure
  whose next animation-frame callback is pending, in the order of their registration.
\<close>

type_synonym session = "real list \<times> detector"

text \<open>The constructor (lines 8-46).\<close>

definition constructor :: detector where
  "constructor =
    \<lparr> INSTANT_TEMPLATE = True, TMPL_SIZE = 96, TMPL_THR = fl 0.55, EDGE_TMPL = False,
      CONF_RATIO = fl 0.90, MIN_GOOD_MATCHES = 3, MIN_INLIERS = 6,
      SMOOTH_N = 5, SHOW_DEBUG = True, EXIT_ON_PASS = False, PASS_HOLD_MS = 1000,
      PROC_W = 320, PROC_H = 240,
      REF_IMAGE_FILES = [''wafer_ref_4.png'', ''wafer_ref_5.png'', ''wafer_ref_1.jpg'', ''wafer_ref_2.jpg''],
      refs = [], hits = [], passed = False, passStartedAt = None, isRunning = False,
      lastQuad = None, outputText = [], statusCall = None \<rparr>"

subsection \<open>Settings from the page\<close>

text \<open>
  \<^verbatim>\<open>updateSettings\<close> (lines 106-117): each of the four input elements may be absent
  (\<open>None\<close>); a present one overwrites its tunable.
\<close>

record ui_settings =
  confRatio :: "real option"
  minGoodMatches :: "int option"
  minInliers :: "int option"
  smoothFrames :: "int option"

definition updateSettings :: "ui_settings \<Rightarrow> detector \<Rightarrow> detector" where
  "updateSettings ui d =
    (let d1 = (case confRatio ui of None \<Rightarrow> d | Some v \<Rightarrow> d\<lparr>CONF_RATIO := v\<rparr>);
         d2 = (case minGoodMatches ui of None \<Rightarrow> d1 | Some v \<Rightarrow> d1\<lparr>MIN_GOOD_MATCHES := v\<rparr>);
         d3 = (case minInliers ui of None \<Rightarrow> d2 | Some v \<Rightarrow> d2\<lparr>MIN_INLIERS := v\<rparr>)
     in (case smoothFrames ui of None \<Rightarrow> d3 | Some v \<Rightarrow> d3\<lparr>SMOOTH_N := v\<rparr>))"

subsection \<open>Reference images\<close>

text \<open>
  What happens to one image while it is loaded: the image fails to load (\<^verbatim>\<open>img.onerror\<close>),
  the \<^verbatim>\<open>onload\<close> handler throws before the descriptor check, or ORB extraction yields
  \<^verbatim>\<open>des.rows\<close> descriptors on an image of the given width and height, after which
  building the template may still throw.
\<close>

datatype image_result =
    LoadError
  | DecodeThrows
  | Features nat int int bool

record ref_file =
  file_name :: string
  file_result :: image_result

datatype load_error = Rejected

text \<open>Lines 176-201 and 266-289: the reference built from a usable image.\<close>

definition build_reference :: "'a tunables_scheme \<Rightarrow> string \<Rightarrow> nat \<Rightarrow> int \<Rightarrow> int \<Rightarrow> reference" where
  "build_reference d nm rows w h =
    \<lparr> ref_name = nm, ref_des_rows = rows,
      ref_corners = [0, 0, of_int w, 0, of_int w, of_int h, 0, of_int h],
      ref_tmpl = Some (TMPL_SIZE d, TMPL_SIZE d),
      ref_res = Some (PROC_H d - TMPL_SIZE d + 1, PROC_W d - TMPL_SIZE d + 1) \<rparr>"

text \<open>
  \<^verbatim>\<open>_loadRefFromPath\<close> (lines 149-211) resolves with \<^verbatim>\<open>null\<close> on every failure.
\<close>

fun loadRefFromPath :: "'a tunables_scheme \<Rightarrow> string \<Rightarrow> image_result \<Rightarrow> reference option" where
  "loadRefFromPath d nm LoadError = None"
| "loadRefFromPath d nm DecodeThrows = None"
| "loadRefFromPath d nm (Features rows w h throws) =
    (if rows < 8 then None
     else if throws then None
     else Some (build_reference d nm rows w h))"

text \<open>
  \<^verbatim>\<open>_processRefFile\<close> (lines 240-295) resolves with \<^verbatim>\<open>null\<close> for a weak reference and
  rejects on a load error or an exception.
\<close>

definition processRefFile :: "'a tunables_scheme \<Rightarrow> ref_file \<Rightarrow> load_error + reference option" where
  "processRefFile d f =
    (case file_result f of
       LoadError \<Rightarrow> Inl Rejected
     | DecodeThrows \<Rightarrow> Inl Rejected
     | Features rows w h throws \<Rightarrow>
         if rows < 8 then Inr None
         else if throws then Inl Rejected
         else Inr (Some (build_reference d (file_name f) rows w h)))"

text \<open>
  \<^verbatim>\<open>loadReferenceImages\<close> (lines 120-147): every default file is loaded
  (\<^verbatim>\<open>Promise.allSettled\<close>) and each non-null result is pushed, in order. The environment
  \<open>env\<close> says what loading each file name gives.
\<close>

fun push_loaded :: "reference option list \<Rightarrow> reference list \<Rightarrow> reference list" where
  "push_loaded [] acc = acc"
| "push_loaded (None # rest) acc = push_loaded rest acc"
| "push_loaded (Some r # rest) acc = push_loaded rest (acc @ [r])"

definition loadReferenceImages :: "(string \<Rightarrow> image_result) \<Rightarrow> detector \<Rightarrow> detector" where
  "loadReferenceImages env d =
    d\<lparr>refs := push_loaded (map (\<lambda>f. loadRefFromPath d f (env f)) (REF_IMAGE_FILES d)) []\<rparr>"

text \<open>
  \<^verbatim>\<open>loadCustomReferenceImages\<close> (lines 213-238): the files are awaited one by one; a
  rejection leaves the loop, with the references pushed so far.
\<close>

fun custom_loop :: "'a tunables_scheme \<Rightarrow> ref_file list \<Rightarrow> reference list \<Rightarrow> reference list \<times> load_error option" where
  "custom_loop d [] acc = (acc, None)"
| "custom_loop d (f # fs) acc =
    (case processRefFile d f of
       Inl e \<Rightarrow> (acc, Some e)
     | Inr None \<Rightarrow> custom_loop d fs acc
     | Inr (Some r) \<Rightarrow> custom_loop d fs (acc @ [r]))"

definition loadCustomReferenceImages :: "ref_file list \<Rightarrow> detector \<Rightarrow> detector \<times> load_error option" where
  "loadCustomReferenceImages files d =
    (let out = custom_loop d files [] in (d\<lparr>refs := fst out\<rparr>, snd out))"

text \<open>An image is weak when fewer than 8 descriptors are extracted from it.\<close>

fun weak :: "image_result \<Rightarrow> bool" where
  "weak (Features rows w h throws) = (rows < 8)"
| "weak _ = False"

fun usable :: "image_result \<Rightarrow> bool" where
  "usable (Features rows w h throws) = (8 \<le> rows \<and> \<not> throws)"
| "usable _ = False"

subsection \<open>The OpenCV calls of one cycle\<close>

record dmatch =
  distance :: real
  queryIdx :: nat
  trainIdx :: nat

text \<open>
  \<^verbatim>\<open>cv.findHomography\<close> throws, returns an empty matrix, or returns a matrix together
  with a mask whose non-zero count is the number of inliers.
\<close>

datatype fit = FitThrows | FitEmpty | Fit homography nat

datatype error = CvException

text \<open>
  What OpenCV returns during one cycle. \<open>matchTemplate\<close> is the \<^verbatim>\<open>maxVal\<close> of
  \<^verbatim>\<open>minMaxLoc\<close> after \<^verbatim>\<open>matchTemplate\<close> on the edge or the grey frame;
  \<open>detectAndCompute\<close> is \<^verbatim>\<open>desFrame.rows\<close>; \<open>perspectiveTransform\<close> is the projected
  polygon; \<open>None\<close> is a thrown exception.
  \<open>now_pass\<close> and \<open>now_exit\<close> are the two readings of \<^verbatim>\<open>performance.now()\<close>.
\<close>

record cv_frame =
  matchTemplate :: "bool \<Rightarrow> reference \<Rightarrow> real option"
  detectAndCompute :: "nat option"
  knnMatch :: "reference \<Rightarrow> dmatch list list option"
  findHomography :: "reference \<Rightarrow> dmatch list \<Rightarrow> fit"
  perspectiveTransform :: "quad \<Rightarrow> homography \<Rightarrow> quad option"
  now_pass :: real
  now_exit :: real

datatype cv_call =
    CvtColor
  | Canny
  | MatchTemplate reference
  | DetectAndCompute
  | KnnMatch reference
  | FindHomography reference
  | PerspectiveTransform reference

definition logged :: "cv_call list \<Rightarrow> 'a \<times> cv_call list \<Rightarrow> 'a \<times> cv_call list" where
  "logged cs p = (fst p, cs @ snd p)"

subsection \<open>Instant template gate\<close>

text \<open>Lines 411-423: the loop over the references; \<open>th\<close> is \<^verbatim>\<open>templateHit\<close>.\<close>

fun template_gate ::
  "'a tunables_scheme \<Rightarrow> cv_frame \<Rightarrow> reference list \<Rightarrow> bool \<Rightarrow> (error + bool) \<times> cv_call list" where
  "template_gate d cv [] th = (Inr th, [])"
| "template_gate d cv (r # rs) th =
    (if ref_tmpl r = None \<or> ref_res r = None then template_gate d cv rs th
     else case matchTemplate cv (EDGE_TMPL d) r of
        None \<Rightarrow> (Inl CvException, [MatchTemplate r])
      | Some maxVal \<Rightarrow>
          logged [MatchTemplate r]
            (template_gate d cv rs (if TMPL_THR d \<le> maxVal then True else th)))"

subsection \<open>ORB fallback\<close>

text \<open>Lines 438-445: the ratio test on the two nearest neighbours of one descriptor.\<close>

fun keep_match :: "real \<Rightarrow> dmatch list \<Rightarrow> dmatch option" where
  "keep_match ratio [m, n] = (if distance m < fmul ratio (distance n) then Some m else None)"
| "keep_match ratio mv = None"

fun ratio_test :: "real \<Rightarrow> dmatch list list \<Rightarrow> dmatch list" where
  "ratio_test ratio [] = []"
| "ratio_test ratio (mv # mvs) =
    (case keep_match ratio mv of
       Some m \<Rightarrow> m # ratio_test ratio mvs
     | None \<Rightarrow> ratio_test ratio mvs)"

text \<open>
  Lines 462-479: the fit of one reference inside its own \<^verbatim>\<open>try\<close>; the accumulator is
  \<^verbatim>\<open>(bestInliers, bestQuad)\<close>. \<^verbatim>\<open>bestInliers\<close> is raised before the projection
  (line 469), so a projection that throws leaves the count raised and the quadrilateral as
  it was.
\<close>

definition fit_reference ::
  "'a tunables_scheme \<Rightarrow> cv_frame \<Rightarrow> reference \<Rightarrow> dmatch list \<Rightarrow> int \<times> quad option
     \<Rightarrow> (int \<times> quad option) \<times> cv_call list" where
  "fit_reference d cv r good acc =
    (case findHomography cv r good of
       FitThrows \<Rightarrow> (acc, [FindHomography r])
     | FitEmpty \<Rightarrow> (acc, [FindHomography r])
     | Fit H inliers \<Rightarrow>
         if fst acc < int inliers then
           (if SHOW_DEBUG d
            then (case perspectiveTransform cv (ref_corners r) H of
                    None \<Rightarrow>
                      ((int inliers, snd acc), [FindHomography r, PerspectiveTransform r])
                  | Some quad \<Rightarrow>
                      ((int inliers, Some quad), [FindHomography r, PerspectiveTransform r]))
            else ((int inliers, snd acc), [FindHomography r]))
         else (acc, [FindHomography r]))"

text \<open>Lines 433-483: the loop over the references, with its early exit.\<close>

fun orb_loop ::
  "'a tunables_scheme \<Rightarrow> cv_frame \<Rightarrow> reference list \<Rightarrow> int \<times> quad option
     \<Rightarrow> (error + int \<times> quad option) \<times> cv_call list" where
  "orb_loop d cv [] acc = (Inr acc, [])"
| "orb_loop d cv (r # rs) acc =
    (case knnMatch cv r of
       None \<Rightarrow> (Inl CvException, [KnnMatch r])
     | Some matches \<Rightarrow>
         if int (length (ratio_test (CONF_RATIO d) matches)) < MIN_GOOD_MATCHES d
         then logged [KnnMatch r] (orb_loop d cv rs acc)
         else
           if MIN_INLIERS d \<le> fst (fst (fit_reference d cv r (ratio_test (CONF_RATIO d) matches) acc))
           then (Inr (fst (fit_reference d cv r (ratio_test (CONF_RATIO d) matches) acc)),
                 KnnMatch r # snd (fit_reference d cv r (ratio_test (CONF_RATIO d) matches) acc))
           else logged (KnnMatch r # snd (fit_reference d cv r (ratio_test (CONF_RATIO d) matches) acc))
                  (orb_loop d cv rs (fst (fit_reference d cv r (ratio_test (CONF_RATIO d) matches) acc))))"


subsection \<open>One detection cycle\<close>

record cycle_vars =
  waferPresent :: bool
  bestInliers :: int
  bestQuad :: "quad option"
  templateHit :: bool

text \<open>Lines 405-408.\<close>

definition init_vars :: cycle_vars where
  "init_vars = \<lparr> waferPresent = False, bestInliers = 0, bestQuad = None, templateHit = False \<rparr>"

text \<open>Lines 398-403: the grey frame and, when templates are matched on edges, the edge frame.\<close>

definition preprocess :: "'a tunables_scheme \<Rightarrow> cv_call list" where
  "preprocess d = (if EDGE_TMPL d then [CvtColor, Canny] else [CvtColor])"

text \<open>Lines 410-423.\<close>

definition gate_stage :: "detector \<Rightarrow> cv_frame \<Rightarrow> cycle_vars \<Rightarrow> (error + cycle_vars) \<times> cv_call list" where
  "gate_stage d cv v =
    (if INSTANT_TEMPLATE d then
       (case template_gate d cv (refs d) (templateHit v) of
          (Inl e, cs) \<Rightarrow> (Inl e, cs)
        | (Inr th, cs) \<Rightarrow> (Inr (v\<lparr>templateHit := th\<rparr>), cs))
     else (Inr v, []))"

text \<open>Lines 425-487.\<close>

definition fallback_stage :: "detector \<Rightarrow> cv_frame \<Rightarrow> cycle_vars \<Rightarrow> (error + cycle_vars) \<times> cv_call list" where
  "fallback_stage d cv v =
    (if \<not> waferPresent v then
       (case detectAndCompute cv of
          None \<Rightarrow> (Inl CvException, [DetectAndCompute])
        | Some rows \<Rightarrow>
            (case (if 8 \<le> rows then orb_loop d cv (refs d) (bestInliers v, bestQuad v)
                   else (Inr (bestInliers v, bestQuad v), [])) of
               (Inl e, cs) \<Rightarrow> (Inl e, DetectAndCompute # cs)
             | (Inr (bi, bq), cs) \<Rightarrow>
                 (Inr (v\<lparr>bestInliers := bi, bestQuad := bq,
                         waferPresent := (templateHit v \<and> MIN_INLIERS d \<le> bi)\<rparr>),
                  DetectAndCompute # cs)))
     else (Inr v, []))"

text \<open>Lines 394-487: everything of the cycle before the decision.\<close>

definition detect_frame :: "detector \<Rightarrow> cv_frame \<Rightarrow> (error + cycle_vars) \<times> cv_call list" where
  "detect_frame d cv =
    (case gate_stage d cv init_vars of
       (Inl e, cs) \<Rightarrow> (Inl e, preprocess d @ cs)
     | (Inr v, cs) \<Rightarrow> logged (preprocess d @ cs) (fallback_stage d cv v))"

subsection \<open>Decision smoother and pass latch\<close>

text \<open>Lines 490-491: push, then one shift when the window is over its capacity.\<close>

definition push_hit :: "int \<Rightarrow> bool list \<Rightarrow> bool \<Rightarrow> bool list" where
  "push_hit n hs h = (if n < int (length (hs @ [h])) then tl (hs @ [h]) else hs @ [h])"

text \<open>Line 492: \<^verbatim>\<open>hits.some(Boolean)\<close>.\<close>

definition some_Boolean :: "bool list \<Rightarrow> bool" where
  "some_Boolean hs = list_ex (\<lambda>b. b) hs"

text \<open>\<^verbatim>\<open>stopDetection\<close> (lines 329-340).\<close>

definition stopDetection :: "detector \<Rightarrow> detector" where
  "stopDetection d =
    d\<lparr>isRunning := False, statusCall := Some (False, 0, False), outputText := ''0'',
      lastQuad := None\<rparr>"

text \<open>Lines 489-514: smoothing, the latch, the overlay, the output and the optional exit.\<close>

definition decide :: "detector \<Rightarrow> cv_frame \<Rightarrow> cycle_vars \<Rightarrow> detector" where
  "decide d cv v =
    (let d1 = d\<lparr>hits := push_hit (SMOOTH_N d) (hits d) (waferPresent v)\<rparr>;
         decided = some_Boolean (hits d1);
         d2 = (if decided \<and> \<not> passed d1
               then d1\<lparr>passed := True, passStartedAt := Some (now_pass cv)\<rparr> else d1);
         d3 = d2\<lparr>lastQuad := (if SHOW_DEBUG d2 \<and> bestQuad v \<noteq> None \<and> \<not> passed d2
                               then bestQuad v else None)\<rparr>;
         d4 = d3\<lparr>outputText := (if decided \<or> passed d3 then ''1'' else ''0''),
                 statusCall := Some (decided, bestInliers v, passed d3)\<rparr>
     in if EXIT_ON_PASS d4 \<and> passed d4 \<and> passStartedAt d4 \<noteq> None \<and> passStartedAt d4 \<noteq> Some 0
        then (if PASS_HOLD_MS d4 \<le> fl (now_exit cv - the (passStartedAt d4))
              then stopDetection d4 else d4)
        else d4)"

text \<open>
  Lines 393-517: the body of one cycle. An exception of the cycle is caught and logged; the
  fields of the detector are then as before the cycle.
\<close>

definition cycle :: "detector \<Rightarrow> cv_frame \<Rightarrow> detector" where
  "cycle d cv =
    (case fst (detect_frame d cv) of
       Inl e \<Rightarrow> d
     | Inr v \<Rightarrow> decide d cv v)"

text \<open>
  Lines 388-520: one call of \<^verbatim>\<open>loop(ts)\<close> in the closure whose \<^verbatim>\<open>lastTS\<close> is given.
  The result is the \<^verbatim>\<open>lastTS\<close> with which the closure waits for the next animation
  frame, or \<open>None\<close> when it does not ask for one: when the detector is not running
  (line 389), and when the cycle itself stopped the detector (the \<^verbatim>\<open>return\<close> of
  line 512, the only place where a cycle clears \<^verbatim>\<open>isRunning\<close>).
\<close>

definition loop :: "real \<Rightarrow> cv_frame \<Rightarrow> real \<Rightarrow> detector \<Rightarrow> real option \<times> detector" where
  "loop ts cv lastTS d =
    (if \<not> isRunning d then (None, d)
     else if fl (ts - lastTS) < fl (1000 / 30) then (Some lastTS, d)
     else (if isRunning (cycle d cv) then Some ts else None, cycle d cv))"

text \<open>
  One animation frame: the pending callbacks run one after the other on the same video
  frame.
\<close>

fun animation_frame :: "real \<Rightarrow> cv_frame \<Rightarrow> real list \<Rightarrow> detector \<Rightarrow> real list \<times> detector" where
  "animation_frame ts cv [] d = ([], d)"
| "animation_frame ts cv (t # rest) d =
    (case fst (loop ts cv t d) of
       None \<Rightarrow> animation_frame ts cv rest (snd (loop ts cv t d))
     | Some t' \<Rightarrow>
         (t' # fst (animation_frame ts cv rest (snd (loop ts cv t d))),
          snd (animation_frame ts cv rest (snd (loop ts cv t d)))))"

text \<open>
  \<^verbatim>\<open>startDetection\<close> (lines 298-327), with the handler of \<^verbatim>\<open>onloadedmetadata\<close>:
  nothing happens without references or without a camera.
\<close>

definition startDetection :: "ui_settings \<Rightarrow> bool \<Rightarrow> detector \<Rightarrow> detector" where
  "startDetection ui camera_ok d =
    (if refs d = [] then d
     else if \<not> camera_ok then d
     else updateSettings ui
            (d\<lparr>isRunning := True, passed := False, passStartedAt := None,
               hits := [], lastQuad := None\<rparr>))"

text \<open>
  What can happen in a session: the buttons and the animation frames. A start that goes
  through calls \<^verbatim>\<open>_startDetectionLoop\<close> (line 321), which registers a new closure with
  \<^verbatim>\<open>lastTS = 0\<close>; a stop leaves the pending callbacks, which end at their next call.
\<close>

datatype event =
    Start ui_settings bool
  | Stop
  | Frame real cv_frame

fun is_Start :: "event \<Rightarrow> bool" where
  "is_Start (Start ui ok) = True"
| "is_Start _ = False"

fun handle :: "session \<Rightarrow> event \<Rightarrow> session" where
  "handle (ls, d) (Start ui ok) =
    (if refs d = [] \<or> \<not> ok then ls else ls @ [0], startDetection ui ok d)"
| "handle (ls, d) Stop = (ls, stopDetection d)"
| "handle (ls, d) (Frame ts cv) = animation_frame ts cv ls d"

fun run :: "session \<Rightarrow> event list \<Rightarrow> session" where
  "run s [] = s"
| "run s (e # es) = run (handle s e) es"

text \<open>
  The gate in the spec's words: it clears when the maximum correlation score of some
  reference is at or above the template threshold.
\<close>

definition template_hit_on :: "'a tunables_scheme \<Rightarrow> cv_frame \<Rightarrow> reference \<Rightarrow> bool" where
  "template_hit_on d cv r =
    (ref_tmpl r \<noteq> None \<and> ref_res r \<noteq> None \<and>
     (case matchTemplate cv (EDGE_TMPL d) r of
        None \<Rightarrow> False
      | Some maxVal \<Rightarrow> TMPL_THR d \<le> maxVal))"

definition gate_clears :: "detector \<Rightarrow> cv_frame \<Rightarrow> bool" where
  "gate_clears d cv = (INSTANT_TEMPLATE d \<and> list_ex (template_hit_on d cv) (refs d))"

text \<open>What the gate stage of the code reports for a frame, and its hits over a frame sequence.\<close>

definition gate_hit :: "detector \<Rightarrow> cv_frame \<Rightarrow> bool" where
  "gate_hit d cv =
    (case fst (gate_stage d cv init_vars) of
       Inl e \<Rightarrow> False
     | Inr v \<Rightarrow> templateHit v)"

definition gate_hits :: "detector \<Rightarrow> cv_frame list \<Rightarrow> nat" where
  "gate_hits d cvs = length (filter (gate_hit d) cvs)"

text \<open>
  Successive cycles on a list of frames, and the presence flags they push into the
  smoother: a cycle that throws pushes nothing.
\<close>

fun cycles :: "detector \<Rightarrow> cv_frame list \<Rightarrow> detector" where
  "cycles d [] = d"
| "cycles d (cv # cvs) = cycles (cycle d cv) cvs"

fun pushed :: "detector \<Rightarrow> cv_frame list \<Rightarrow> bool list" where
  "pushed d [] = []"
| "pushed d (cv # cvs) =
    (case fst (detect_frame d cv) of
       Inl e \<Rightarrow> pushed (cycle d cv) cvs
     | Inr v \<Rightarrow> waferPresent v # pushed (cycle d cv) cvs)"

text \<open>The frames of a session with their time stamps, and frames that are all far enough
  apart in time to start a cycle.\<close>

definition frame_events :: "(real \<times> cv_frame) list \<Rightarrow> event list" where
  "frame_events fs = map (\<lambda>f. Frame (fst f) (snd f)) fs"

fun paced :: "real \<Rightarrow> (real \<times> cv_frame) list \<Rightarrow> bool" where
  "paced t [] = True"
| "paced t (f # fs) = (\<not> fl (fst f - t) < fl (1000 / 30) \<and> paced (fst f) fs)"

subsection \<open>Concrete inputs\<close>

text \<open>
  Two references as the loader builds them, a pair of neighbours that passes the default
  ratio test and one that fails it, and frames: one on which nothing matches, one on which
  only the template matches, one on which the template matches and every fit has the given
  inliers, and others with few descriptors, a failing first fit or an unmatched first
  reference.
\<close>

definition ref_a :: reference where
  "ref_a = build_reference constructor ''wafer_ref_4.png'' 120 64 48"

definition ref_b :: reference where
  "ref_b = build_reference constructor ''wafer_ref_5.png'' 200 80 60"

definition near_pair :: "nat \<Rightarrow> dmatch list" where
  "near_pair i =
    [\<lparr>distance = 17, queryIdx = i, trainIdx = i\<rparr>, \<lparr>distance = 20, queryIdx = i, trainIdx = Suc i\<rparr>]"

definition far_pair :: "nat \<Rightarrow> dmatch list" where
  "far_pair i =
    [\<lparr>distance = 19, queryIdx = i, trainIdx = i\<rparr>, \<lparr>distance = 20, queryIdx = i, trainIdx = Suc i\<rparr>]"

definition frame_blank :: cv_frame where
  "frame_blank =
    \<lparr> matchTemplate = (\<lambda>e r. Some 0.10), detectAndCompute = Some 3,
      knnMatch = (\<lambda>r. Some []), findHomography = (\<lambda>r g. FitEmpty),
      perspectiveTransform = (\<lambda>q H. Some q), now_pass = 0, now_exit = 0 \<rparr>"

definition frame_template_only :: cv_frame where
  "frame_template_only =
    \<lparr> matchTemplate = (\<lambda>e r. Some 0.60), detectAndCompute = Some 500,
      knnMatch = (\<lambda>r. Some (map far_pair [0..<ref_des_rows r])),
      findHomography = (\<lambda>r g. FitEmpty),
      perspectiveTransform = (\<lambda>q H. Some q), now_pass = 0, now_exit = 0 \<rparr>"

definition frame_match :: "nat \<Rightarrow> cv_frame" where
  "frame_match inl =
    \<lparr> matchTemplate = (\<lambda>e r. Some 0.60), detectAndCompute = Some 500,
      knnMatch = (\<lambda>r. Some [near_pair 0, near_pair 1, near_pair 2, near_pair 3]),
      findHomography = (\<lambda>r g. Fit [1, 0, 0, 0, 1, 0, 0, 0, 1] inl),
      perspectiveTransform = (\<lambda>q H. Some q), now_pass = 5000, now_exit = 5001 \<rparr>"

definition frame_few_features :: cv_frame where
  "frame_few_features =
    \<lparr> matchTemplate = (\<lambda>e r. Some 0.60), detectAndCompute = Some 3,
      knnMatch = (\<lambda>r. Some []), findHomography = (\<lambda>r g. FitEmpty),
      perspectiveTransform = (\<lambda>q H. Some q), now_pass = 0, now_exit = 0 \<rparr>"

definition frame_first_fit_fails :: cv_frame where
  "frame_first_fit_fails =
    \<lparr> matchTemplate = (\<lambda>e r. Some 0.60), detectAndCompute = Some 500,
      knnMatch = (\<lambda>r. Some [near_pair 0, near_pair 1, near_pair 2, near_pair 3]),
      findHomography =
        (\<lambda>r g. if ref_name r = ''wafer_ref_4.png'' then FitEmpty
               else Fit [1, 0, 0, 0, 1, 0, 0, 0, 1] 10),
      perspectiveTransform = (\<lambda>q H. Some q), now_pass = 5000, now_exit = 5001 \<rparr>"


definition three_frames :: ui_settings where
  "three_frames = \<lparr> confRatio = None, minGoodMatches = None, minInliers = None, smoothFrames = Some 3 \<rparr>"

definition batch :: "ref_file list" where
  "batch =
    [\<lparr>file_name = ''w1.png'', file_result = Features 3 64 48 False\<rparr>,
     \<lparr>file_name = ''u1.png'', file_result = Features 120 64 48 False\<rparr>,
     \<lparr>file_name = ''w2.png'', file_result = Features 7 32 32 False\<rparr>,
     \<lparr>file_name = ''u2.png'', file_result = Features 8 80 60 False\<rparr>]"

definition no_settings :: ui_settings where
  "no_settings = \<lparr> confRatio = None, minGoodMatches = None, minInliers = None, smoothFrames = None \<rparr>"

section \<open>Properties\<close>

subsection \<open>Rounding\<close>

lemmas fl_eval = fl_def fmul_def expo_def expo_ge.simps expo_lt.simps round_half_even_def

lemma expo_ge_bounds: "1 \<le> x \<Longrightarrow> 2 powi expo_ge x \<le> x \<and> x < 2 powi (expo_ge x + 1)"
proof (induction x rule: expo_ge.induct)
  case (1 x)
  show ?case
  proof (cases "2 \<le> x")
    case True
    then have "1 \<le> x / 2" by simp
    with "1.IH" True have ih: "2 powi expo_ge (x / 2) \<le> x / 2" "x / 2 < 2 powi (expo_ge (x / 2) + 1)"
      by simp_all
    have e: "expo_ge x = expo_ge (x / 2) + 1" using True by (subst expo_ge.simps) simp
    have p: "(2::real) powi (k + 1) = 2 powi k * 2" for k by (simp add: power_int_add)
    from ih show ?thesis unfolding e p by simp
  next
    case False
    then have "expo_ge x = 0" by (subst expo_ge.simps) simp
    with False "1.prems" show ?thesis by simp
  qed
qed

lemma expo_lt_bounds:
  "0 < x \<Longrightarrow> x < 1 \<Longrightarrow> 2 powi expo_lt x \<le> x \<and> x < 2 powi (expo_lt x + 1)"
proof (induction x rule: expo_lt.induct)
  case (1 x)
  from "1.prems" have e: "expo_lt x = expo_lt (x * 2) - 1" by (subst expo_lt.simps) simp
  have p: "(2::real) powi (k - 1) = 2 powi k / 2" for k by (simp add: power_int_diff)
  show ?case
  proof (cases "x * 2 < 1")
    case True
    with "1.IH" "1.prems" have "2 powi expo_lt (x * 2) \<le> x * 2" "x * 2 < 2 powi (expo_lt (x * 2) + 1)"
      by simp_all
    moreover have "(2::real) powi (expo_lt (x * 2) + 1) = 2 powi expo_lt (x * 2) * 2"
      by (simp add: power_int_add)
    ultimately show ?thesis unfolding e p by simp
  next
    case False
    then have "expo_lt (x * 2) = 0" by (subst expo_lt.simps) simp
    with False "1.prems" show ?thesis unfolding e by (simp add: power_int_minus)
  qed
qed

lemma expo_bounds: "x \<noteq> 0 \<Longrightarrow> 2 powi expo x \<le> \<bar>x\<bar> \<and> \<bar>x\<bar> < 2 powi (expo x + 1)"
  using expo_ge_bounds [of "\<bar>x\<bar>"] expo_lt_bounds [of "\<bar>x\<bar>"] by (simp add: expo_def)

lemma round_half_even_error: "\<bar>of_int (round_half_even y) - y\<bar> \<le> 1 / 2"
  unfolding round_half_even_def by (simp; linarith)

lemma fl_error: "\<bar>fl x - x\<bar> \<le> \<bar>x\<bar> / 2 ^ 53"
proof (cases "x = 0")
  case True
  then show ?thesis by (simp add: fl_def)
next
  case False
  define u :: real where "u = 2 powi (expo x - 52)"
  have u: "0 < u" by (simp add: u_def)
  have "fl x - x = (of_int (round_half_even (x / u)) - x / u) * u"
    using False u by (simp add: fl_def u_def algebra_simps)
  then have "\<bar>fl x - x\<bar> = \<bar>of_int (round_half_even (x / u)) - x / u\<bar> * u"
    using u by (simp add: abs_mult)
  also have "\<dots> \<le> 1 / 2 * u"
    using round_half_even_error [of "x / u"] u by (simp add: mult_right_mono)
  also have "u = 2 powi expo x / 2 ^ 52" by (simp add: u_def power_int_diff)
  also have "1 / 2 * ((2::real) powi expo x / 2 ^ 52) = 2 powi expo x / 2 ^ 53" by simp
  also have "\<dots> \<le> \<bar>x\<bar> / 2 ^ 53"
    using expo_bounds [OF False] by (simp add: divide_right_mono)
  finally show ?thesis .
qed

lemma fl_within: "0 < x \<Longrightarrow> 999 / 1000 * x \<le> fl x \<and> fl x \<le> 1001 / 1000 * x"
proof -
  assume x: "0 < x"
  have a: "\<bar>fl x - x\<bar> \<le> x / 2 ^ 53" using fl_error [of x] x by simp
  have b: "x / 2 ^ 53 \<le> x / 1000" using x by (intro divide_left_mono) simp_all
  from a b show ?thesis by linarith
qed

lemma fmul_error: "\<bar>fmul a b - a * b\<bar> \<le> \<bar>a * b\<bar> / 2 ^ 53"
  unfolding fmul_def by (rule fl_error)

lemma fl_literals:
  "899 / 1000 \<le> fl 0.90" "899 / 1000 \<le> fl 0.95" "fl 0.80 \<le> 801 / 1000" "0 < fl 0.80"
  by (simp_all add: fl_eval)

subsection \<open>Ratio test\<close>

lemma fst_logged [simp]: "fst (logged cs p) = fst p"
  by (simp add: logged_def)

lemma snd_logged [simp]: "snd (logged cs p) = cs @ snd p"
  by (simp add: logged_def)

lemma keep_match_two:
  "keep_match ratio mv =
    (if length mv = 2 \<and> distance (mv ! 0) < fmul ratio (distance (mv ! 1))
     then Some (hd mv) else None)"
proof (cases mv)
  case Nil
  then show ?thesis by simp
next
  case (Cons a as)
  note outer = this
  show ?thesis
  proof (cases as)
    case Nil
    with outer show ?thesis by simp
  next
    case (Cons b bs)
    with outer show ?thesis by (cases bs) simp_all
  qed
qed

lemma ratio_test_rows:
  "ratio_test ratio mvs =
    map hd (filter (\<lambda>mv. length mv = 2 \<and> distance (mv ! 0) < fmul ratio (distance (mv ! 1))) mvs)"
  by (induction mvs) (simp_all add: keep_match_two)

lemma scenario_kept:
  assumes "0 < d2" and "d1 / d2 = 0.85" and "899 / 1000 \<le> r"
  shows "d1 < fmul r d2"
proof -
  from assms(1,2) have d1: "d1 = 85 / 100 * d2" by (simp add: field_simps)
  from assms(1,3) have p: "899 / 1000 * d2 \<le> r * d2" by (intro mult_right_mono) simp_all
  with assms(1) have "0 < r * d2" by linarith
  then have "999 / 1000 * (r * d2) \<le> fl (r * d2)" using fl_within by blast
  with p d1 assms(1) show ?thesis unfolding fmul_def by linarith
qed

lemma scenario_dropped:
  assumes "0 < d2" and "d1 / d2 = 0.85" and "0 < r" and "r \<le> 801 / 1000"
  shows "\<not> d1 < fmul r d2"
proof -
  from assms(1,2) have d1: "d1 = 85 / 100 * d2" by (simp add: field_simps)
  from assms(1,4) have p: "r * d2 \<le> 801 / 1000 * d2" by (intro mult_right_mono) simp_all
  from assms(1,3) have "0 < r * d2" by simp
  then have "fl (r * d2) \<le> 1001 / 1000 * (r * d2)" using fl_within by blast
  with p d1 assms(1) show ?thesis unfolding fmul_def by linarith
qed

text \<open>
  C5 as stated fails in exact arithmetic, whichever number the configured ratio is taken to
  be. With the ratio parsed from 0.56 and the distances 14 and 25 the code keeps the match
  although 14 is not below 0.56 times 25; with the distances 70 and 125 it drops the match
  although 70 is below the stored ratio times 125.
\<close>

theorem ratio_test_counterexample:
  "keep_match (fl 0.56)
      [\<lparr>distance = 14, queryIdx = 0, trainIdx = 0\<rparr>, \<lparr>distance = 25, queryIdx = 0, trainIdx = 1\<rparr>]
     = Some \<lparr>distance = 14, queryIdx = 0, trainIdx = 0\<rparr>
   \<and> \<not> (14::real) < 0.56 * 25
   \<and> keep_match (fl 0.56)
      [\<lparr>distance = 70, queryIdx = 0, trainIdx = 0\<rparr>, \<lparr>distance = 125, queryIdx = 0, trainIdx = 1\<rparr>]
     = None
   \<and> (70::real) < fl 0.56 * 125"
  by (simp add: fl_eval)

text \<open>
  C5, amended. Of the rows that \<^verbatim>\<open>knnMatch\<close> returns, the ratio test keeps the nearest
  match of exactly those rows with two neighbours whose nearest distance is strictly below
  the double-precision product of the ratio and the second-nearest distance. That product
  differs from the exact one by at most \<open>1 / 2 ^ 53\<close> of its size, so the test agrees with
  the exact comparison outside that margin. When the nearest distance is 0.85 of the
  second-nearest, the match is kept at the ratios 0.90 and 0.95 and dropped at the ratio 0.80.
\<close>

theorem ratio_test_keeps_iff:
  "ratio_test ratio mvs =
     map hd (filter (\<lambda>mv. length mv = 2 \<and> distance (mv ! 0) < fmul ratio (distance (mv ! 1))) mvs)
   \<and> (keep_match ratio [m, n] = Some m \<longleftrightarrow> distance m < fmul ratio (distance n))
   \<and> (distance m < ratio * distance n - \<bar>ratio * distance n\<bar> / 2 ^ 53 \<longrightarrow>
        keep_match ratio [m, n] = Some m)
   \<and> (keep_match ratio [m, n] = Some m \<longrightarrow>
        distance m < ratio * distance n + \<bar>ratio * distance n\<bar> / 2 ^ 53)
   \<and> (0 < distance n \<and> distance m / distance n = 0.85 \<longrightarrow>
        keep_match (fl 0.90) [m, n] = Some m \<and> keep_match (fl 0.95) [m, n] = Some m
        \<and> keep_match (fl 0.80) [m, n] = None)"
proof -
  have e: "\<bar>fmul ratio (distance n) - ratio * distance n\<bar> \<le> \<bar>ratio * distance n\<bar> / 2 ^ 53"
    by (rule fmul_error)
  have lo: "keep_match ratio [m, n] = Some m"
    if "distance m < ratio * distance n - \<bar>ratio * distance n\<bar> / 2 ^ 53"
  proof -
    from that e have "distance m < fmul ratio (distance n)" by linarith
    then show ?thesis by simp
  qed
  have hi: "distance m < ratio * distance n + \<bar>ratio * distance n\<bar> / 2 ^ 53"
    if "keep_match ratio [m, n] = Some m"
  proof -
    from that have "distance m < fmul ratio (distance n)" by (simp split: if_splits)
    with e show ?thesis by linarith
  qed
  have sc: "keep_match (fl 0.90) [m, n] = Some m \<and> keep_match (fl 0.95) [m, n] = Some m
        \<and> keep_match (fl 0.80) [m, n] = None"
    if "0 < distance n" and "distance m / distance n = 0.85"
  proof -
    have "distance m < fmul (fl 0.90) (distance n)"
      using that fl_literals(1) by (rule scenario_kept)
    moreover have "distance m < fmul (fl 0.95) (distance n)"
      using that fl_literals(2) by (rule scenario_kept)
    moreover have "\<not> distance m < fmul (fl 0.80) (distance n)"
      using that fl_literals(4) fl_literals(3) by (rule scenario_dropped)
    ultimately show ?thesis by simp
  qed
  from ratio_test_rows [of ratio mvs] lo hi sc show ?thesis by simp
qed

theorem ratio_test_keeps_iff_witness:
  "0 < distance \<lparr>distance = 20, queryIdx = 4, trainIdx = 9\<rparr>
   \<and> distance \<lparr>distance = 17, queryIdx = 4, trainIdx = 2\<rparr> / distance \<lparr>distance = 20, queryIdx = 4, trainIdx = 9\<rparr> = 0.85
   \<and> keep_match (fl 0.90) [\<lparr>distance = 17, queryIdx = 4, trainIdx = 2\<rparr>, \<lparr>distance = 20, queryIdx = 4, trainIdx = 9\<rparr>]
       = Some \<lparr>distance = 17, queryIdx = 4, trainIdx = 2\<rparr>
   \<and> keep_match (fl 0.80) [\<lparr>distance = 17, queryIdx = 4, trainIdx = 2\<rparr>, \<lparr>distance = 20, queryIdx = 4, trainIdx = 9\<rparr>]
       = None"
proof -
  have a: "0 < distance \<lparr>distance = 20, queryIdx = 4, trainIdx = 9\<rparr>" by simp
  have b: "distance \<lparr>distance = 17, queryIdx = 4, trainIdx = 2\<rparr>
      / distance \<lparr>distance = 20, queryIdx = 4, trainIdx = 9\<rparr> = 0.85" by simp
  from ratio_test_keeps_iff [where m = "\<lparr>distance = 17, queryIdx = 4, trainIdx = 2\<rparr>"
      and n = "\<lparr>distance = 20, queryIdx = 4, trainIdx = 9\<rparr>"] a b
  show ?thesis by blast
qed

text \<open>The default template threshold, and the concrete pairs under the default ratio.\<close>

lemma fl_template_threshold [simp]: "fl (11 / 20) = 2476979795053773 / 4503599627370496"
  by (simp add: fl_eval)

lemma keep_near_pair [simp]:
  "keep_match (fl (9 / 10)) (near_pair i) = Some \<lparr>distance = 17, queryIdx = i, trainIdx = i\<rparr>"
  by (simp add: near_pair_def fl_eval)

lemma keep_far_pair [simp]: "keep_match (fl (9 / 10)) (far_pair i) = None"
  by (simp add: far_pair_def fl_eval)

lemma ratio_test_far_pairs [simp]: "ratio_test (fl (9 / 10)) (map far_pair xs) = []"
  by (induction xs) simp_all

subsection \<open>Decision smoother\<close>

lemma push_hit_window:
  assumes "1 \<le> n" and "hs = drop (length ys - nat n) ys"
  shows "push_hit n hs x = drop (length (ys @ [x]) - nat n) (ys @ [x])"
proof (cases "nat n \<le> length ys")
  case True
  with assms have len: "length hs = nat n" by simp
  with assms(1) have ne: "hs \<noteq> []" by auto
  from len assms(1) have "n < int (length (hs @ [x]))" by simp
  then have "push_hit n hs x = tl (hs @ [x])" by (simp add: push_hit_def)
  also have "\<dots> = tl hs @ [x]" using ne by simp
  also have "tl hs = drop (Suc (length ys - nat n)) ys"
    using assms(2) by (simp add: drop_Suc tl_drop)
  also have "Suc (length ys - nat n) = length (ys @ [x]) - nat n"
    using True by simp
  also have "drop (length (ys @ [x]) - nat n) ys @ [x] = drop (length (ys @ [x]) - nat n) (ys @ [x])"
    using True assms(1) by simp
  finally show ?thesis .
next
  case False
  with assms have "hs = ys" by simp
  moreover from False assms(1) have "\<not> n < int (length (ys @ [x]))" by simp
  ultimately show ?thesis using False by (simp add: push_hit_def)
qed

lemma some_Boolean_iff: "some_Boolean hs \<longleftrightarrow> True \<in> set hs"
  by (auto simp: some_Boolean_def list_ex_iff)

lemma cycle_Inl: "fst (detect_frame d cv) = Inl e \<Longrightarrow> cycle d cv = d"
  by (simp add: cycle_def)

lemma cycle_Inr: "fst (detect_frame d cv) = Inr v \<Longrightarrow> cycle d cv = decide d cv v"
  by (simp add: cycle_def)

lemma hits_decide: "hits (decide d cv v) = push_hit (SMOOTH_N d) (hits d) (waferPresent v)"
  by (simp add: decide_def Let_def stopDetection_def)

lemma SMOOTH_N_decide: "SMOOTH_N (decide d cv v) = SMOOTH_N d"
  by (simp add: decide_def Let_def stopDetection_def)

lemma SMOOTH_N_cycle: "SMOOTH_N (cycle d cv) = SMOOTH_N d"
  by (simp add: cycle_def SMOOTH_N_decide split: sum.splits)

lemma isRunning_decide: "isRunning (decide d cv v) \<Longrightarrow> isRunning d"
  by (simp add: decide_def Let_def stopDetection_def split: if_splits)

lemma passed_decide_eq:
  "passed (decide d cv v)
     = (passed d \<or> some_Boolean (push_hit (SMOOTH_N d) (hits d) (waferPresent v)))"
  by (auto simp: decide_def Let_def stopDetection_def)

lemma status_decide:
  "isRunning (decide d cv v) \<Longrightarrow>
     statusCall (decide d cv v)
       = Some (some_Boolean (push_hit (SMOOTH_N d) (hits d) (waferPresent v)), bestInliers v,
               passed (decide d cv v))"
  by (auto simp: decide_def Let_def stopDetection_def split: if_splits)

lemma pushed_Nil_cycles: "pushed d cvs = [] \<Longrightarrow> cycles d cvs = d"
proof (induction cvs arbitrary: d)
  case Nil
  then show ?case by simp
next
  case (Cons cv cvs)
  from Cons.prems obtain e where e: "fst (detect_frame d cv) = Inl e"
    by (cases "fst (detect_frame d cv)") simp_all
  then have c: "cycle d cv = d" by (rule cycle_Inl)
  with Cons.prems e have "pushed d cvs = []" by simp
  with Cons.IH c show ?case by simp
qed

lemma hits_cycles_window:
  assumes "1 \<le> n"
  shows "SMOOTH_N d = n \<Longrightarrow> hits d = drop (length ys - nat n) ys \<Longrightarrow>
         hits (cycles d cvs)
           = drop (length (ys @ pushed d cvs) - nat n) (ys @ pushed d cvs)"
proof (induction cvs arbitrary: d ys)
  case Nil
  then show ?case by simp
next
  case (Cons cv cvs)
  have n': "SMOOTH_N (cycle d cv) = n" using Cons.prems(1) by (simp add: SMOOTH_N_cycle)
  show ?case
  proof (cases "fst (detect_frame d cv)")
    case (Inl e)
    then have "cycle d cv = d" by (rule cycle_Inl)
    with Cons.IH [OF Cons.prems] Inl show ?thesis by simp
  next
    case (Inr v)
    then have "hits (cycle d cv) = push_hit n (hits d) (waferPresent v)"
      using Cons.prems(1) by (simp add: cycle_Inr hits_decide)
    also have "\<dots> = drop (length (ys @ [waferPresent v]) - nat n) (ys @ [waferPresent v])"
      using assms Cons.prems(2) by (rule push_hit_window)
    finally have w: "hits (cycle d cv)
        = drop (length (ys @ [waferPresent v]) - nat n) (ys @ [waferPresent v])" .
    from Cons.IH [OF n' w] Inr show ?thesis by simp
  qed
qed

lemma isRunning_cycle: "isRunning (cycle d cv) \<Longrightarrow> isRunning d"
  by (auto simp: cycle_def split: sum.splits dest: isRunning_decide)

lemma isRunning_cycles: "isRunning (cycles d cvs) \<Longrightarrow> isRunning d"
  by (induction cvs arbitrary: d) (auto dest: isRunning_cycle)

lemma status_cycles:
  "isRunning (cycles d cvs) \<Longrightarrow> pushed d cvs \<noteq> [] \<Longrightarrow>
     map_option fst (statusCall (cycles d cvs)) = Some (some_Boolean (hits (cycles d cvs)))"
proof (induction cvs arbitrary: d)
  case Nil
  then show ?case by simp
next
  case (Cons cv cvs)
  show ?case
  proof (cases "pushed (cycle d cv) cvs = []")
    case False
    with Cons.IH [of "cycle d cv"] Cons.prems(1) show ?thesis by simp
  next
    case True
    then have same: "cycles (cycle d cv) cvs = cycle d cv" by (rule pushed_Nil_cycles)
    with Cons.prems(1) have run: "isRunning (cycle d cv)" by simp
    from True Cons.prems(2) obtain v where v: "fst (detect_frame d cv) = Inr v"
      by (cases "fst (detect_frame d cv)") simp_all
    then have c: "cycle d cv = decide d cv v" by (rule cycle_Inr)
    with run have "statusCall (decide d cv v)
       = Some (some_Boolean (push_hit (SMOOTH_N d) (hits d) (waferPresent v)), bestInliers v,
               passed (decide d cv v))"
      by (simp add: status_decide)
    with same c show ?thesis by (simp add: hits_decide)
  qed
qed

text \<open>
  An animation frame runs successive cycles on the same video frame, at most one for each
  pending callback; with one callback and frames far enough apart, a running session runs
  one cycle for each frame.
\<close>

lemma animation_frame_cycles:
  "\<exists>k \<le> length ls. snd (animation_frame ts cv ls d) = cycles d (replicate k cv)"
proof (induction ls arbitrary: d)
  case Nil
  then show ?case by simp
next
  case (Cons t ls)
  show ?case
  proof (cases "isRunning d \<and> \<not> fl (ts - t) < fl (1000 / 30)")
    case True
    then have l: "snd (loop ts cv t d) = cycle d cv" by (simp add: loop_def)
    from Cons.IH [of "cycle d cv"] obtain k where "k \<le> length ls"
      and "snd (animation_frame ts cv ls (cycle d cv)) = cycles (cycle d cv) (replicate k cv)"
      by blast
    with l have "Suc k \<le> length (t # ls)
        \<and> snd (animation_frame ts cv (t # ls) d) = cycles d (replicate (Suc k) cv)"
      by (simp split: option.splits)
    then show ?thesis by blast
  next
    case False
    then have l: "snd (loop ts cv t d) = d" by (auto simp: loop_def)
    from Cons.IH [of d] obtain k where "k \<le> length ls"
      and "snd (animation_frame ts cv ls d) = cycles d (replicate k cv)"
      by blast
    with l have "k \<le> length (t # ls)
        \<and> snd (animation_frame ts cv (t # ls) d) = cycles d (replicate k cv)"
      by (simp split: option.splits)
    then show ?thesis by blast
  qed
qed

lemma run_single_loop:
  "paced t fs \<Longrightarrow> isRunning (cycles d (map snd fs)) \<Longrightarrow>
   run ([t], d) (frame_events fs)
     = ([if fs = [] then t else fst (last fs)], cycles d (map snd fs))"
proof (induction fs arbitrary: d t)
  case Nil
  then show ?case by (simp add: frame_events_def)
next
  case (Cons f fs)
  let ?d1 = "cycle d (snd f)"
  from Cons.prems(2) have r1: "isRunning (cycles ?d1 (map snd fs))" by simp
  then have r: "isRunning ?d1" by (rule isRunning_cycles)
  then have r0: "isRunning d" by (rule isRunning_cycle)
  from Cons.prems(1) have p: "\<not> fl (fst f - t) < fl (1000 / 30)" and p': "paced (fst f) fs"
    by simp_all
  from r0 r p have h: "handle ([t], d) (Frame (fst f) (snd f)) = ([fst f], ?d1)"
    by (simp add: loop_def)
  from Cons.IH [OF p' r1] h show ?case by (simp add: frame_events_def)
qed

text \<open>
  C3. From the empty window of a start and with a window capacity of at least 1, after any
  sequence of cycles the window holds the last \<open>min (k + 1) N\<close> of the \<open>k + 1\<close> presence flags
  pushed so far, and the debounced output that the cycle of the last push reports is true
  exactly when one of them is true; with capacity 1 it is the last flag pushed. The
  debounced output is what sets the latch, and a running session with one detection loop
  runs exactly these cycles.
\<close>

theorem smoother_fifo_or:
  assumes "1 \<le> SMOOTH_N d" and "hits d = []"
  shows "hits (cycles d cvs)
           = drop (length (pushed d cvs) - min (length (pushed d cvs)) (nat (SMOOTH_N d)))
               (pushed d cvs)
       \<and> (isRunning (cycles d cvs) \<and> pushed d cvs \<noteq> [] \<longrightarrow>
            map_option fst (statusCall (cycles d cvs))
              = Some (True \<in> set (drop (length (pushed d cvs)
                                         - min (length (pushed d cvs)) (nat (SMOOTH_N d)))
                                     (pushed d cvs))))
       \<and> (SMOOTH_N d = 1 \<and> isRunning (cycles d cvs) \<and> pushed d cvs \<noteq> [] \<longrightarrow>
            map_option fst (statusCall (cycles d cvs)) = Some (last (pushed d cvs)))
       \<and> passed (decide d' cv' v')
           = (passed d' \<or> some_Boolean (push_hit (SMOOTH_N d') (hits d') (waferPresent v')))
       \<and> (paced t fs \<and> isRunning (cycles d (map snd fs)) \<longrightarrow>
            run ([t], d) (frame_events fs)
              = ([if fs = [] then t else fst (last fs)], cycles d (map snd fs)))"
proof -
  let ?ps = "pushed d cvs"
  let ?n = "nat (SMOOTH_N d)"
  have m: "length ?ps - min (length ?ps) ?n = length ?ps - ?n" by linarith
  have w: "hits (cycles d cvs) = drop (length ?ps - ?n) ?ps"
    using hits_cycles_window [OF assms(1) refl, of "[]" cvs] assms(2) by simp
  have s: "map_option fst (statusCall (cycles d cvs)) = Some (True \<in> set (drop (length ?ps - ?n) ?ps))"
    if "isRunning (cycles d cvs)" and "?ps \<noteq> []"
    using status_cycles [OF that] w by (simp add: some_Boolean_iff)
  have one: "map_option fst (statusCall (cycles d cvs)) = Some (last ?ps)"
    if "SMOOTH_N d = 1" and "isRunning (cycles d cvs)" and "?ps \<noteq> []"
  proof -
    from that(3) have "drop (length ?ps - 1) ?ps = [last ?ps]"
      by (metis append_butlast_last_id append_eq_conv_conj length_butlast)
    with s [OF that(2,3)] that(1) show ?thesis by simp
  qed
  from w s one run_single_loop [of t fs d] show ?thesis
    unfolding m by (simp add: passed_decide_eq)
qed

subsection \<open>Unfolding one cycle\<close>

lemmas cyc_defs = detect_frame_def gate_stage_def fallback_stage_def init_vars_def preprocess_def
  fit_reference_def logged_def cycle_def decide_def loop_def push_hit_def some_Boolean_def
  stopDetection_def startDetection_def updateSettings_def Let_def

theorem smoother_fifo_or_witness:
  "1 \<le> SMOOTH_N (startDetection three_frames True (constructor\<lparr>refs := [ref_a]\<rparr>))
   \<and> hits (startDetection three_frames True (constructor\<lparr>refs := [ref_a]\<rparr>)) = []
   \<and> pushed (startDetection three_frames True (constructor\<lparr>refs := [ref_a]\<rparr>))
        [frame_blank, frame_blank, frame_match 8, frame_blank, frame_blank, frame_blank]
       = [False, False, True, False, False, False]
   \<and> isRunning (cycles (startDetection three_frames True (constructor\<lparr>refs := [ref_a]\<rparr>))
        [frame_blank, frame_blank, frame_match 8, frame_blank, frame_blank, frame_blank])
   \<and> hits (cycles (startDetection three_frames True (constructor\<lparr>refs := [ref_a]\<rparr>))
        [frame_blank, frame_blank, frame_match 8, frame_blank, frame_blank, frame_blank])
       = [False, False, False]
   \<and> map_option fst (statusCall (cycles (startDetection three_frames True (constructor\<lparr>refs := [ref_a]\<rparr>))
        [frame_blank, frame_blank, frame_match 8, frame_blank, frame_blank, frame_blank]))
       = Some False
   \<and> map_option fst (statusCall (cycles (startDetection three_frames True (constructor\<lparr>refs := [ref_a]\<rparr>))
        [frame_blank, frame_blank, frame_match 8, frame_blank]))
       = Some True"
proof -
  let ?d = "startDetection three_frames True (constructor\<lparr>refs := [ref_a]\<rparr>)"
  let ?cvs = "[frame_blank, frame_blank, frame_match 8, frame_blank, frame_blank, frame_blank]"
  have a: "1 \<le> SMOOTH_N ?d"
    by (simp add: three_frames_def constructor_def ref_a_def cyc_defs)
  have b: "hits ?d = []"
    by (simp add: three_frames_def constructor_def ref_a_def cyc_defs)
  have p: "pushed ?d ?cvs = [False, False, True, False, False, False]"
    by (simp add: three_frames_def constructor_def ref_a_def build_reference_def frame_blank_def
          frame_match_def cyc_defs)
  have r: "isRunning (cycles ?d ?cvs)"
    by (simp add: three_frames_def constructor_def ref_a_def build_reference_def frame_blank_def
          frame_match_def cyc_defs)
  have n: "nat (SMOOTH_N ?d) = 3"
    by (simp add: three_frames_def constructor_def ref_a_def cyc_defs)
  have four: "map_option fst (statusCall (cycles ?d [frame_blank, frame_blank, frame_match 8, frame_blank]))
       = Some True"
    by (simp add: three_frames_def constructor_def ref_a_def build_reference_def frame_blank_def
          frame_match_def cyc_defs)
  note t = smoother_fifo_or [OF a b, of ?cvs]
  have h: "hits (cycles ?d ?cvs) = [False, False, False]"
    using t [THEN conjunct1] unfolding p n by simp
  have s: "map_option fst (statusCall (cycles ?d ?cvs)) = Some False"
    using t [THEN conjunct2, THEN conjunct1] r unfolding p n by simp
  from a b p r h s four show ?thesis by blast
qed

subsection \<open>Pass latch\<close>

lemma passed_stopDetection: "passed (stopDetection d) = passed d"
  by (simp add: stopDetection_def)

lemma passed_decide: "passed d \<Longrightarrow> passed (decide d cv v)"
  by (simp add: passed_decide_eq)

lemma passed_cycle: "passed d \<Longrightarrow> passed (cycle d cv)"
  by (simp add: cycle_def passed_decide split: sum.splits)

lemma passed_loop: "passed d \<Longrightarrow> passed (snd (loop ts cv t d))"
  by (simp add: loop_def passed_cycle)

lemma passed_animation_frame: "passed d \<Longrightarrow> passed (snd (animation_frame ts cv ls d))"
  by (induction ls arbitrary: d) (simp_all add: passed_loop split: option.splits)

lemma passed_handle: "passed (snd s) \<Longrightarrow> \<not> is_Start e \<Longrightarrow> passed (snd (handle s e))"
  by (cases s; cases e) (simp_all add: passed_animation_frame passed_stopDetection)

lemma passed_run:
  "passed (snd s) \<Longrightarrow> \<forall>e \<in> set es. \<not> is_Start e \<Longrightarrow> passed (snd (run s es))"
  by (induction es arbitrary: s) (simp_all add: passed_handle)

lemma passed_startDetection:
  "refs d \<noteq> [] \<Longrightarrow> \<not> passed (startDetection ui True d)"
  by (simp add: startDetection_def updateSettings_def Let_def split: option.splits)

lemma hits_startDetection:
  "refs d \<noteq> [] \<Longrightarrow> hits (startDetection ui True d) = [] \<and> isRunning (startDetection ui True d)"
  by (simp add: startDetection_def updateSettings_def Let_def split: option.splits)

text \<open>
  C4. Once \<open>passed\<close> is set, it stays set after every further frame and after a stop,
  whatever the frames show and however many detection loops are pending: only a new start
  clears it.
\<close>

theorem pass_latch_sticky:
  assumes "passed (snd s)" and "\<forall>e \<in> set es. \<not> is_Start e"
  shows "\<forall>k \<le> length es. passed (snd (run s (take k es)))"
proof (intro allI impI)
  fix k
  from assms(2) have "\<forall>e \<in> set (take k es). \<not> is_Start e"
    by (auto dest: in_set_takeD)
  with assms(1) show "passed (snd (run s (take k es)))" by (rule passed_run)
qed

theorem pass_latch_sticky_witness:
  "passed (snd (run ([], constructor\<lparr>refs := [ref_a]\<rparr>)
                  [Start no_settings True, Frame 100 (frame_match 8)]))
   \<and> list_all (\<lambda>e. \<not> is_Start e) [Frame 200 frame_blank, Frame 300 frame_blank, Stop, Frame 400 frame_blank]
   \<and> passed (snd (run (run ([], constructor\<lparr>refs := [ref_a]\<rparr>)
                          [Start no_settings True, Frame 100 (frame_match 8)])
                  [Frame 200 frame_blank, Frame 300 frame_blank, Stop, Frame 400 frame_blank]))"
proof -
  let ?s = "run ([], constructor\<lparr>refs := [ref_a]\<rparr>) [Start no_settings True, Frame 100 (frame_match 8)]"
  let ?es = "[Frame 200 frame_blank, Frame 300 frame_blank, Stop, Frame 400 frame_blank]"
  have p: "passed (snd ?s)"
    by (simp add: ref_a_def near_pair_def frame_match_def no_settings_def constructor_def
          build_reference_def cyc_defs fl_eval)
  have n: "\<forall>e \<in> set ?es. \<not> is_Start e" by simp
  from pass_latch_sticky [OF p n, rule_format, of 4]
  have "passed (snd (run ?s (take 4 ?es)))" by simp
  with p n show ?thesis by (simp add: list_all_iff)
qed

subsection \<open>Presence flag\<close>

lemma template_gate_result:
  "fst (template_gate d cv rs th) = Inr b \<Longrightarrow> b = (th \<or> list_ex (template_hit_on d cv) rs)"
  by (induction rs arbitrary: th)
     (auto simp: template_hit_on_def split: option.splits if_splits)

lemma gate_stage_result:
  assumes "fst (gate_stage d cv init_vars) = Inr v"
  shows "v = init_vars\<lparr>templateHit := gate_clears d cv\<rparr>"
proof (cases "INSTANT_TEMPLATE d")
  case False
  with assms show ?thesis by (auto simp: gate_stage_def gate_clears_def init_vars_def)
next
  case True
  with assms obtain b where b: "fst (template_gate d cv (refs d) False) = Inr b"
    and v: "v = init_vars\<lparr>templateHit := b\<rparr>"
    by (auto simp: gate_stage_def init_vars_def split: prod.splits sum.splits)
  from b have "b = list_ex (template_hit_on d cv) (refs d)"
    by (auto dest: template_gate_result)
  with v True show ?thesis by (simp add: gate_clears_def)
qed

lemma fallback_stage_present:
  "fst (fallback_stage d cv v0) = Inr v \<Longrightarrow> \<not> waferPresent v0 \<Longrightarrow>
     templateHit v = templateHit v0 \<and>
     waferPresent v = (templateHit v0 \<and> MIN_INLIERS d \<le> bestInliers v)"
  by (auto simp: fallback_stage_def split: if_splits prod.splits sum.splits option.splits)

lemma detect_frame_Inr:
  "fst (detect_frame d cv) = Inr v \<Longrightarrow>
     \<exists>v0. fst (gate_stage d cv init_vars) = Inr v0 \<and> fst (fallback_stage d cv v0) = Inr v"
  by (auto simp: detect_frame_def split: prod.splits sum.splits)

text \<open>
  C2. In every cycle that reaches the decision, the presence flag pushed into the smoother
  is the conjunction of the template hit and \<open>bestInliers \<ge> MIN_INLIERS\<close>; the template hit
  is the gate clearing, so without it the fallback gives no presence.
\<close>

theorem presence_is_gate_and_inliers:
  assumes "fst (detect_frame d cv) = Inr v"
  shows "templateHit v = gate_clears d cv
       \<and> waferPresent v = (templateHit v \<and> MIN_INLIERS d \<le> bestInliers v)
       \<and> (\<not> gate_clears d cv \<longrightarrow> \<not> waferPresent v)
       \<and> hits (cycle d cv) = push_hit (SMOOTH_N d) (hits d) (waferPresent v)"
proof -
  from assms obtain v0 where g: "fst (gate_stage d cv init_vars) = Inr v0"
    and f: "fst (fallback_stage d cv v0) = Inr v"
    by (blast dest: detect_frame_Inr)
  from g have v0: "v0 = init_vars\<lparr>templateHit := gate_clears d cv\<rparr>"
    by (rule gate_stage_result)
  then have "\<not> waferPresent v0" by (simp add: init_vars_def)
  with f have "templateHit v = templateHit v0"
    and "waferPresent v = (templateHit v0 \<and> MIN_INLIERS d \<le> bestInliers v)"
    by (auto dest: fallback_stage_present)
  moreover from v0 have "templateHit v0 = gate_clears d cv" by simp
  moreover from assms have "hits (cycle d cv) = push_hit (SMOOTH_N d) (hits d) (waferPresent v)"
    by (simp add: cycle_def hits_decide)
  ultimately show ?thesis by simp
qed

theorem presence_is_gate_and_inliers_witness:
  "fst (detect_frame (constructor\<lparr>refs := [ref_a]\<rparr>) (frame_match 8))
     = Inr \<lparr>waferPresent = True, bestInliers = 8, bestQuad = Some (ref_corners ref_a), templateHit = True\<rparr>
   \<and> gate_clears (constructor\<lparr>refs := [ref_a]\<rparr>) (frame_match 8)
   \<and> hits (cycle (constructor\<lparr>refs := [ref_a]\<rparr>) (frame_match 8)) = [True]"
proof -
  have e: "fst (detect_frame (constructor\<lparr>refs := [ref_a]\<rparr>) (frame_match 8))
     = Inr \<lparr>waferPresent = True, bestInliers = 8, bestQuad = Some (ref_corners ref_a), templateHit = True\<rparr>"
    by (simp add: ref_a_def frame_match_def constructor_def build_reference_def
             cyc_defs)
  from presence_is_gate_and_inliers [OF e] e show ?thesis
    by (simp add: push_hit_def constructor_def)
qed

subsection \<open>Template threshold\<close>

lemma template_gate_antitone:
  "t \<le> t' \<Longrightarrow> (th' \<longrightarrow> th) \<Longrightarrow>
   fst (template_gate (d\<lparr>TMPL_THR := t'\<rparr>) cv rs th') = Inr True \<Longrightarrow>
   fst (template_gate (d\<lparr>TMPL_THR := t\<rparr>) cv rs th) = Inr True"
proof (induction rs arbitrary: th th')
  case Nil
  then show ?case by simp
next
  case (Cons r rs)
  show ?case
  proof (cases "ref_tmpl r = None \<or> ref_res r = None")
    case True
    with Cons show ?thesis by simp
  next
    case False
    show ?thesis
    proof (cases "matchTemplate cv (EDGE_TMPL d) r")
      case None
      with False Cons.prems show ?thesis by (simp del: not_None_eq)
    next
      case (Some mv)
      let ?n' = "if t' \<le> mv then True else th'"
      let ?n = "if t \<le> mv then True else th"
      from Cons.prems(1,2) have imp: "?n' \<longrightarrow> ?n" by auto
      from Cons.prems(3) False Some
      have "fst (template_gate (d\<lparr>TMPL_THR := t'\<rparr>) cv rs ?n') = Inr True"
        by (simp del: not_None_eq)
      from Cons.IH [OF Cons.prems(1) imp this] False Some show ?thesis
        by (simp del: not_None_eq)
    qed
  qed
qed

lemma gate_hit_antitone:
  assumes "t \<le> t'" and "gate_hit (d\<lparr>TMPL_THR := t'\<rparr>) cv"
  shows "gate_hit (d\<lparr>TMPL_THR := t\<rparr>) cv"
proof (cases "INSTANT_TEMPLATE d")
  case False
  with assms(2) show ?thesis by (simp add: gate_hit_def gate_stage_def init_vars_def)
next
  case True
  with assms(2) have "fst (template_gate (d\<lparr>TMPL_THR := t'\<rparr>) cv (refs d) False) = Inr True"
    by (auto simp: gate_hit_def gate_stage_def init_vars_def split: prod.splits sum.splits)
  with assms(1) have "fst (template_gate (d\<lparr>TMPL_THR := t\<rparr>) cv (refs d) False) = Inr True"
    using template_gate_antitone [of t t' False False d cv "refs d"] by simp
  with True show ?thesis
    by (auto simp: gate_hit_def gate_stage_def init_vars_def split: prod.splits sum.splits)
qed

lemma length_filter_mono:
  "(\<And>x. x \<in> set xs \<Longrightarrow> P x \<Longrightarrow> Q x) \<Longrightarrow> length (filter P xs) \<le> length (filter Q xs)"
  by (induction xs) auto

text \<open>
  C6. The gate's hit is antitone in the template threshold: a frame that hits at the
  threshold \<open>t'\<close> hits at every \<open>t \<le> t'\<close>, so over a frame sequence the number of hits does
  not grow when the threshold is raised.
\<close>

theorem gate_antitone_in_threshold:
  assumes "t \<le> t'"
  shows "(\<forall>cv. gate_hit (d\<lparr>TMPL_THR := t'\<rparr>) cv \<longrightarrow> gate_hit (d\<lparr>TMPL_THR := t\<rparr>) cv)
       \<and> gate_hits (d\<lparr>TMPL_THR := t'\<rparr>) cvs \<le> gate_hits (d\<lparr>TMPL_THR := t\<rparr>) cvs"
  using assms by (auto simp: gate_hits_def intro: gate_hit_antitone length_filter_mono)

theorem gate_antitone_in_threshold_witness:
  "(0.55::real) \<le> 0.70
   \<and> gate_hits (constructor\<lparr>refs := [ref_a], TMPL_THR := 0.70\<rparr>) [frame_blank, frame_template_only] = 0
   \<and> gate_hits (constructor\<lparr>refs := [ref_a], TMPL_THR := 0.55\<rparr>) [frame_blank, frame_template_only] = 1
   \<and> gate_hits (constructor\<lparr>refs := [ref_a], TMPL_THR := 0.70\<rparr>) [frame_blank, frame_template_only]
       \<le> gate_hits (constructor\<lparr>refs := [ref_a], TMPL_THR := 0.55\<rparr>) [frame_blank, frame_template_only]"
  using gate_antitone_in_threshold [of "0.55" "0.70" "constructor\<lparr>refs := [ref_a]\<rparr>" "[frame_blank, frame_template_only]"]
  by (simp add: gate_hits_def gate_hit_def ref_a_def frame_blank_def frame_template_only_def
           constructor_def build_reference_def cyc_defs)

subsection \<open>Reference loading\<close>

lemma loadRefFromPath_None_iff: "loadRefFromPath d nm res = None \<longleftrightarrow> \<not> usable res"
  by (cases res) auto

lemma loadRefFromPath_rows: "loadRefFromPath d nm res = Some r \<Longrightarrow> 8 \<le> ref_des_rows r"
  by (cases res) (auto simp: build_reference_def split: if_splits)

lemma weak_not_usable: "weak res \<Longrightarrow> \<not> usable res"
  by (cases res) auto

lemma push_loaded_eq:
  "map Some (push_loaded os acc) = map Some acc @ filter (\<lambda>x. x \<noteq> None) os"
proof (induction os arbitrary: acc)
  case Nil
  then show ?case by simp
next
  case (Cons x os)
  then show ?case by (cases x) simp_all
qed

lemma processRefFile_weak: "weak (file_result f) \<Longrightarrow> processRefFile d f = Inr None"
  by (cases "file_result f") (auto simp: processRefFile_def)

lemma processRefFile_usable:
  "usable (file_result f) \<Longrightarrow>
     processRefFile d f = Inr (loadRefFromPath d (file_name f) (file_result f))"
  by (cases "file_result f") (auto simp: processRefFile_def)

lemma processRefFile_rows: "processRefFile d f = Inr (Some r) \<Longrightarrow> 8 \<le> ref_des_rows r"
  by (cases "file_result f") (auto simp: processRefFile_def build_reference_def split: if_splits)

lemma custom_loop_drop_weak:
  "custom_loop d (filter (\<lambda>f. \<not> weak (file_result f)) fs) acc = custom_loop d fs acc"
proof (induction fs arbitrary: acc)
  case Nil
  then show ?case by simp
next
  case (Cons f fs)
  show ?case
  proof (cases "weak (file_result f)")
    case True
    then have "processRefFile d f = Inr None" by (rule processRefFile_weak)
    with True Cons.IH show ?thesis by (simp)
  next
    case False
    with Cons.IH show ?thesis
      by (simp split: sum.splits option.splits)
  qed
qed

lemma custom_loop_rows:
  "\<forall>r \<in> set acc. 8 \<le> ref_des_rows r \<Longrightarrow>
   \<forall>r \<in> set (fst (custom_loop d fs acc)). 8 \<le> ref_des_rows r"
proof (induction fs arbitrary: acc)
  case Nil
  then show ?case by simp
next
  case (Cons f fs)
  show ?case
  proof (cases "processRefFile d f")
    case (Inl e)
    with Cons.prems show ?thesis by (simp)
  next
    case (Inr x)
    show ?thesis
    proof (cases x)
      case None
      with Inr Cons show ?thesis by (simp)
    next
      case (Some r)
      with Inr have "8 \<le> ref_des_rows r" by (simp add: processRefFile_rows)
      with Cons.prems have "\<forall>r \<in> set (acc @ [r]). 8 \<le> ref_des_rows r" by simp
      from Cons.IH [OF this] Inr Some show ?thesis by (simp)
    qed
  qed
qed

lemma custom_loop_all:
  "\<forall>f \<in> set fs. weak (file_result f) \<or> usable (file_result f) \<Longrightarrow>
   snd (custom_loop d fs acc) = None \<and>
   map Some (fst (custom_loop d fs acc))
     = map Some acc @ filter (\<lambda>x. x \<noteq> None) (map (\<lambda>f. loadRefFromPath d (file_name f) (file_result f)) fs)"
proof (induction fs arbitrary: acc)
  case Nil
  then show ?case by simp
next
  case (Cons f fs)
  from Cons.prems have rest: "\<forall>f \<in> set fs. weak (file_result f) \<or> usable (file_result f)"
    by simp
  from Cons.prems have "weak (file_result f) \<or> usable (file_result f)" by simp
  then show ?case
  proof
    assume w: "weak (file_result f)"
    then have "processRefFile d f = Inr None" by (rule processRefFile_weak)
    moreover from w have "loadRefFromPath d (file_name f) (file_result f) = None"
      by (simp add: loadRefFromPath_None_iff weak_not_usable)
    ultimately show ?thesis using Cons.IH [OF rest, of acc]
      by (simp)
  next
    assume u: "usable (file_result f)"
    then obtain r where r: "loadRefFromPath d (file_name f) (file_result f) = Some r"
      using loadRefFromPath_None_iff [of d "file_name f" "file_result f"] by auto
    with u have "processRefFile d f = Inr (Some r)" by (simp add: processRefFile_usable)
    with r show ?thesis using Cons.IH [OF rest, of "acc @ [r]"]
      by (simp)
  qed
qed

text \<open>
  C7. An image with fewer than 8 descriptors never becomes a reference, wherever it stands
  in the batch, and it does not stop the loading: both loaders give the same result as
  without the weak images, the default loader keeps every usable image, and so does the
  custom loader on a batch of weak and usable images.
\<close>

theorem weak_references_dropped:
  "(\<forall>r \<in> set (refs (loadReferenceImages env d)). 8 \<le> ref_des_rows r)
   \<and> (\<forall>r \<in> set (refs (fst (loadCustomReferenceImages fs d))). 8 \<le> ref_des_rows r)
   \<and> (\<forall>f. weak (env f) \<longrightarrow> loadRefFromPath d f (env f) = None)
   \<and> (\<forall>f. weak (file_result f) \<longrightarrow> processRefFile d f = Inr None)
   \<and> map Some (refs (loadReferenceImages env d))
       = filter (\<lambda>x. x \<noteq> None) (map (\<lambda>f. loadRefFromPath d f (env f)) (REF_IMAGE_FILES d))
   \<and> loadCustomReferenceImages (filter (\<lambda>f. \<not> weak (file_result f)) fs) d
       = loadCustomReferenceImages fs d
   \<and> ((\<forall>f \<in> set fs. weak (file_result f) \<or> usable (file_result f)) \<longrightarrow>
        snd (loadCustomReferenceImages fs d) = None
        \<and> map Some (refs (fst (loadCustomReferenceImages fs d)))
            = filter (\<lambda>x. x \<noteq> None)
                (map (\<lambda>f. loadRefFromPath d (file_name f) (file_result f)) fs))"
proof -
  have m: "map Some (refs (loadReferenceImages env d))
       = filter (\<lambda>x. x \<noteq> None) (map (\<lambda>f. loadRefFromPath d f (env f)) (REF_IMAGE_FILES d))"
    using push_loaded_eq [of "map (\<lambda>f. loadRefFromPath d f (env f)) (REF_IMAGE_FILES d)" "[]"]
    by (simp add: loadReferenceImages_def)
  have a: "\<forall>r \<in> set (refs (loadReferenceImages env d)). 8 \<le> ref_des_rows r"
  proof
    fix r assume "r \<in> set (refs (loadReferenceImages env d))"
    then have "Some r \<in> set (map Some (refs (loadReferenceImages env d)))" by simp
    then have "Some r \<in> set (map (\<lambda>f. loadRefFromPath d f (env f)) (REF_IMAGE_FILES d))"
      unfolding m by simp
    then obtain f where "loadRefFromPath d f (env f) = Some r" by auto
    then show "8 \<le> ref_des_rows r" by (rule loadRefFromPath_rows)
  qed
  have b: "\<forall>r \<in> set (refs (fst (loadCustomReferenceImages fs d))). 8 \<le> ref_des_rows r"
    using custom_loop_rows [of "[]" d fs] by (simp add: loadCustomReferenceImages_def Let_def)
  have c: "\<forall>f. weak (env f) \<longrightarrow> loadRefFromPath d f (env f) = None"
    by (simp add: loadRefFromPath_None_iff weak_not_usable)
  have c': "\<forall>f. weak (file_result f) \<longrightarrow> processRefFile d f = Inr None"
    by (simp add: processRefFile_weak)
  have e: "loadCustomReferenceImages (filter (\<lambda>f. \<not> weak (file_result f)) fs) d
       = loadCustomReferenceImages fs d"
    by (simp add: loadCustomReferenceImages_def custom_loop_drop_weak)
  have g: "snd (loadCustomReferenceImages fs d) = None
        \<and> map Some (refs (fst (loadCustomReferenceImages fs d)))
            = filter (\<lambda>x. x \<noteq> None)
                (map (\<lambda>f. loadRefFromPath d (file_name f) (file_result f)) fs)"
    if "\<forall>f \<in> set fs. weak (file_result f) \<or> usable (file_result f)"
    using custom_loop_all [OF that, of d "[]"]
    by (simp add: loadCustomReferenceImages_def Let_def)
  from m a b c c' e g show ?thesis by blast
qed

theorem weak_references_dropped_witness:
  "list_all (\<lambda>f. weak (file_result f) \<or> usable (file_result f)) batch
   \<and> snd (loadCustomReferenceImages batch constructor) = None
   \<and> refs (fst (loadCustomReferenceImages batch constructor))
       = [build_reference constructor ''u1.png'' 120 64 48, build_reference constructor ''u2.png'' 8 80 60]
   \<and> list_all (\<lambda>r. 8 \<le> ref_des_rows r) (refs (fst (loadCustomReferenceImages batch constructor)))
   \<and> loadCustomReferenceImages (filter (\<lambda>f. \<not> weak (file_result f)) batch) constructor
       = loadCustomReferenceImages batch constructor"
proof -
  have h: "\<forall>f \<in> set batch. weak (file_result f) \<or> usable (file_result f)"
    by (simp add: batch_def)
  have v: "refs (fst (loadCustomReferenceImages batch constructor))
       = [build_reference constructor ''u1.png'' 120 64 48, build_reference constructor ''u2.png'' 8 80 60]"
    by (simp add: batch_def loadCustomReferenceImages_def processRefFile_def Let_def)
  from weak_references_dropped [of "\<lambda>f. LoadError" constructor batch] h v show ?thesis
    unfolding list_all_iff by blast
qed

subsection \<open>Gate and fallback in one cycle\<close>

text \<open>
  C1. A cleared gate is meant to mark the frame a hit and to keep the fallback from
  running (lines 3-4, 16, 419 and 425 of the source say so). On a frame with a single
  reference whose template score 0.60 is above the threshold 0.55 and whose descriptors give
  no match, the code runs the fallback (\<open>DetectAndCompute\<close> and \<open>KnnMatch\<close> are called)
  and pushes no hit.
\<close>

theorem gate_hit_alone_is_not_presence:
  "gate_clears (constructor\<lparr>refs := [ref_a]\<rparr>) frame_template_only
   \<and> detect_frame (constructor\<lparr>refs := [ref_a]\<rparr>) frame_template_only
       = (Inr \<lparr>waferPresent = False, bestInliers = 0, bestQuad = None, templateHit = True\<rparr>,
          [CvtColor, MatchTemplate ref_a, DetectAndCompute, KnnMatch ref_a])
   \<and> hits (cycle (constructor\<lparr>refs := [ref_a]\<rparr>) frame_template_only) = [False]
   \<and> \<not> passed (cycle (constructor\<lparr>refs := [ref_a]\<rparr>) frame_template_only)"
  by (simp add: gate_clears_def template_hit_on_def ref_a_def frame_template_only_def
           constructor_def build_reference_def cyc_defs)

subsection \<open>Frames with few descriptors\<close>

lemma template_gate_calls:
  "set (snd (template_gate d cv rs th)) \<subseteq> MatchTemplate ` set rs"
  by (induction rs arbitrary: th) (auto split: option.splits)

lemma gate_stage_calls:
  "set (snd (gate_stage d cv v)) \<subseteq> range MatchTemplate"
proof (cases "INSTANT_TEMPLATE d")
  case False
  then show ?thesis by (simp add: gate_stage_def)
next
  case True
  have "snd (gate_stage d cv v) = snd (template_gate d cv (refs d) (templateHit v))"
    using True by (simp add: gate_stage_def split: prod.splits sum.splits)
  with template_gate_calls [of d cv "refs d" "templateHit v"] show ?thesis by auto
qed

lemma preprocess_calls: "set (preprocess d) \<subseteq> {CvtColor, Canny}"
  by (simp add: preprocess_def)

lemma fallback_stage_few:
  assumes "detectAndCompute cv = Some rows" and "rows < 8" and "\<not> waferPresent v0"
  shows "fallback_stage d cv v0
         = (Inr (v0\<lparr>waferPresent := (templateHit v0 \<and> MIN_INLIERS d \<le> bestInliers v0)\<rparr>),
            [DetectAndCompute])"
  using assms by (simp add: fallback_stage_def)

text \<open>
  C10 as stated fails when the inlier bar is not positive: with \<open>MIN_INLIERS = 0\<close>, a frame
  of 3 descriptors and a cleared gate, the presence flag is true.
\<close>

theorem few_frame_descriptors_counterexample:
  "detectAndCompute frame_few_features = Some 3
   \<and> fst (detect_frame (constructor\<lparr>refs := [ref_a], MIN_INLIERS := 0\<rparr>) frame_few_features)
       = Inr \<lparr>waferPresent = True, bestInliers = 0, bestQuad = None, templateHit = True\<rparr>"
  by (simp add: ref_a_def frame_few_features_def constructor_def build_reference_def cyc_defs)

text \<open>
  C10, amended. When the frame yields fewer than 8 descriptors, no reference is matched in
  that cycle, \<open>bestInliers\<close> is 0 and there is no overlay quadrilateral; the presence flag
  is the gate's hit when \<open>MIN_INLIERS \<le> 0\<close>, and false whatever the gate says when
  \<open>MIN_INLIERS\<close> is positive.
\<close>

theorem few_frame_descriptors_skip_matching:
  assumes "detectAndCompute cv = Some rows" and "rows < 8"
    and "fst (detect_frame d cv) = Inr v"
  shows "bestInliers v = 0 \<and> bestQuad v = None
       \<and> (\<forall>r. KnnMatch r \<notin> set (snd (detect_frame d cv))
              \<and> FindHomography r \<notin> set (snd (detect_frame d cv))
              \<and> PerspectiveTransform r \<notin> set (snd (detect_frame d cv)))
       \<and> waferPresent v = (gate_clears d cv \<and> MIN_INLIERS d \<le> 0)
       \<and> (0 < MIN_INLIERS d \<longrightarrow> \<not> waferPresent v)
       \<and> lastQuad (cycle d cv) = None"
proof -
  from assms(3) obtain v0 where g: "fst (gate_stage d cv init_vars) = Inr v0"
    and f: "fst (fallback_stage d cv v0) = Inr v"
    by (blast dest: detect_frame_Inr)
  from g have v0: "v0 = init_vars\<lparr>templateHit := gate_clears d cv\<rparr>"
    by (rule gate_stage_result)
  then have nw: "\<not> waferPresent v0" by (simp add: init_vars_def)
  have fs: "fallback_stage d cv v0
         = (Inr (v0\<lparr>waferPresent := (templateHit v0 \<and> MIN_INLIERS d \<le> bestInliers v0)\<rparr>),
            [DetectAndCompute])"
    using assms(1,2) nw by (rule fallback_stage_few)
  with f have v: "v = v0\<lparr>waferPresent := (templateHit v0 \<and> MIN_INLIERS d \<le> bestInliers v0)\<rparr>"
    by simp
  with v0 have vals: "bestInliers v = 0" "bestQuad v = None"
    "waferPresent v = (gate_clears d cv \<and> MIN_INLIERS d \<le> 0)"
    by (simp_all add: init_vars_def)
  from g fs have "snd (detect_frame d cv)
      = preprocess d @ snd (gate_stage d cv init_vars) @ [DetectAndCompute]"
    by (cases "gate_stage d cv init_vars") (simp add: detect_frame_def)
  with preprocess_calls [of d] gate_stage_calls [of d cv init_vars]
  have calls: "KnnMatch r \<notin> set (snd (detect_frame d cv))
      \<and> FindHomography r \<notin> set (snd (detect_frame d cv))
      \<and> PerspectiveTransform r \<notin> set (snd (detect_frame d cv))" for r
    by auto
  from assms(3) vals(2) have "lastQuad (cycle d cv) = None"
    by (simp add: cycle_def decide_def Let_def stopDetection_def)
  with vals calls show ?thesis by simp
qed

theorem few_frame_descriptors_skip_matching_witness:
  "detectAndCompute frame_few_features = Some 3 \<and> (3::nat) < 8
   \<and> fst (detect_frame (constructor\<lparr>refs := [ref_a]\<rparr>) frame_few_features)
       = Inr \<lparr>waferPresent = False, bestInliers = 0, bestQuad = None, templateHit = True\<rparr>
   \<and> (0::int) < MIN_INLIERS (constructor\<lparr>refs := [ref_a]\<rparr>)
   \<and> lastQuad (cycle (constructor\<lparr>refs := [ref_a]\<rparr>) frame_few_features) = None"
proof -
  have a: "detectAndCompute frame_few_features = Some 3" by (simp add: ref_a_def
                                                                  frame_few_features_def
                                                                  constructor_def
                                                                  build_reference_def)
  have b: "(3::nat) < 8" by simp
  have c: "fst (detect_frame (constructor\<lparr>refs := [ref_a]\<rparr>) frame_few_features)
       = Inr \<lparr>waferPresent = False, bestInliers = 0, bestQuad = None, templateHit = True\<rparr>"
    by (simp add: ref_a_def frame_few_features_def constructor_def build_reference_def cyc_defs)
  have e: "(0::int) < MIN_INLIERS (constructor\<lparr>refs := [ref_a]\<rparr>)" by (simp add: constructor_def)
  from few_frame_descriptors_skip_matching [OF a b c] a b c e show ?thesis by simp
qed

subsection \<open>Failed homography fits\<close>

lemma fit_reference_failed:
  "findHomography cv r good = FitThrows \<or> findHomography cv r good = FitEmpty \<Longrightarrow>
     fit_reference d cv r good acc = (acc, [FindHomography r])"
  by (auto simp: fit_reference_def)


lemma orb_loop_failed_head:
  assumes "knnMatch cv r = Some matches"
    and "findHomography cv r (ratio_test (CONF_RATIO d) matches) = FitThrows
         \<or> findHomography cv r (ratio_test (CONF_RATIO d) matches) = FitEmpty"
    and "fst acc < MIN_INLIERS d"
  shows "orb_loop d cv (r # rs) acc
         = logged (if int (length (ratio_test (CONF_RATIO d) matches)) < MIN_GOOD_MATCHES d
                   then [KnnMatch r] else [KnnMatch r, FindHomography r])
             (orb_loop d cv rs acc)"
  using assms by (simp add: fit_reference_failed)

lemma orb_loop_failed_anywhere:
  assumes "knnMatch cv r = Some matches"
    and "findHomography cv r (ratio_test (CONF_RATIO d) matches) = FitThrows
         \<or> findHomography cv r (ratio_test (CONF_RATIO d) matches) = FitEmpty"
  shows "fst acc < MIN_INLIERS d \<Longrightarrow>
         fst (orb_loop d cv (pre @ r # post) acc) = fst (orb_loop d cv (pre @ post) acc)"
proof (induction pre arbitrary: acc)
  case Nil
  with orb_loop_failed_head [OF assms, of acc post] show ?case by simp
next
  case (Cons p pre)
  show ?case
  proof (cases "knnMatch cv p")
    case None
    then show ?thesis by simp
  next
    case (Some ms)
    let ?good = "ratio_test (CONF_RATIO d) ms"
    show ?thesis
    proof (cases "int (length ?good) < MIN_GOOD_MATCHES d")
      case True
      with Some Cons.IH [OF Cons.prems] show ?thesis by simp
    next
      case False
      let ?acc' = "fst (fit_reference d cv p ?good acc)"
      show ?thesis
      proof (cases "MIN_INLIERS d \<le> fst ?acc'")
        case True
        with Some False show ?thesis by simp
      next
        case nb: False
        then have "fst ?acc' < MIN_INLIERS d" by simp
        from Cons.IH [OF this] Some False nb show ?thesis by simp
      qed
    qed
  qed
qed

lemma fit_reference_refs_update [simp]:
  "fit_reference (d\<lparr>refs := x\<rparr>) cv r good acc = fit_reference d cv r good acc"
  by (simp add: fit_reference_def split: fit.splits option.splits)

lemma orb_loop_refs_update [simp]:
  "orb_loop (d\<lparr>refs := x\<rparr>) cv rs acc = orb_loop d cv rs acc"
  by (induction rs arbitrary: acc) (simp_all split: option.splits)

lemma orb_loop_completes:
  "\<forall>r \<in> set rs. knnMatch cv r \<noteq> None \<Longrightarrow> \<exists>a. fst (orb_loop d cv rs acc) = Inr a"
proof (induction rs arbitrary: acc)
  case Nil
  then show ?case by simp
next
  case (Cons r rs)
  from Cons.prems obtain ms where ms: "knnMatch cv r = Some ms" by auto
  from Cons.prems have rest: "\<forall>r \<in> set rs. knnMatch cv r \<noteq> None" by simp
  let ?acc' = "fst (fit_reference d cv r (ratio_test (CONF_RATIO d) ms) acc)"
  from Cons.IH [OF rest, of acc] Cons.IH [OF rest, of ?acc'] ms show ?case by simp
qed

lemma fst_fallback_stage:
  "fst (fallback_stage d cv v) =
    (if waferPresent v then Inr v
     else case detectAndCompute cv of
        None \<Rightarrow> Inl CvException
      | Some rows \<Rightarrow>
          (case (if 8 \<le> rows then fst (orb_loop d cv (refs d) (bestInliers v, bestQuad v))
                 else Inr (bestInliers v, bestQuad v)) of
             Inl e \<Rightarrow> Inl e
           | Inr a \<Rightarrow> Inr (v\<lparr>bestInliers := fst a, bestQuad := snd a,
                              waferPresent := (templateHit v \<and> MIN_INLIERS d \<le> fst a)\<rparr>)))"
  by (auto simp: fallback_stage_def split: option.splits prod.splits sum.splits)

text \<open>
  C8 as stated fails when the inlier bar is not positive: with \<open>MIN_INLIERS = 0\<close> the loop
  leaves after the first reference although its fit failed, and the second reference,
  whose fit alone gives 10 inliers, is not evaluated.
\<close>

theorem failed_fit_counterexample:
  "knnMatch frame_first_fit_fails ref_a = Some [near_pair 0, near_pair 1, near_pair 2, near_pair 3]
   \<and> findHomography frame_first_fit_fails ref_a
        (ratio_test (CONF_RATIO (constructor\<lparr>MIN_INLIERS := 0\<rparr>))
           [near_pair 0, near_pair 1, near_pair 2, near_pair 3]) = FitEmpty
   \<and> orb_loop (constructor\<lparr>MIN_INLIERS := 0\<rparr>) frame_first_fit_fails [ref_a, ref_b] (0, None)
       = (Inr (0, None), [KnnMatch ref_a, FindHomography ref_a])
   \<and> orb_loop (constructor\<lparr>MIN_INLIERS := 0\<rparr>) frame_first_fit_fails [ref_b] (0, None)
       = (Inr (10, Some (ref_corners ref_b)),
          [KnnMatch ref_b, FindHomography ref_b, PerspectiveTransform ref_b])"
  by (simp add: ref_a_def ref_b_def frame_first_fit_fails_def constructor_def
           build_reference_def cyc_defs)

text \<open>
  C8, amended. A reference whose homography fit throws or is empty changes neither
  \<open>bestInliers\<close> nor \<open>bestQuad\<close> and raises no exception. When the bar is not yet met
  (\<open>bestInliers < MIN_INLIERS\<close>, as always with a positive bar), the loop goes on to the
  next reference, and the loop and the fallback stage give the same result as without that
  reference; the loop completes whenever no \<open>knnMatch\<close> throws.
\<close>

theorem failed_fit_is_skipped:
  assumes "knnMatch cv r = Some matches"
    and "findHomography cv r (ratio_test (CONF_RATIO d) matches) = FitThrows
         \<or> findHomography cv r (ratio_test (CONF_RATIO d) matches) = FitEmpty"
  shows "(fst acc < MIN_INLIERS d \<longrightarrow>
            orb_loop d cv (r # rs) acc
              = logged (if int (length (ratio_test (CONF_RATIO d) matches)) < MIN_GOOD_MATCHES d
                        then [KnnMatch r] else [KnnMatch r, FindHomography r])
                  (orb_loop d cv rs acc))
       \<and> (0 < MIN_INLIERS d \<longrightarrow>
            fst (orb_loop d cv (pre @ r # post) (0, None))
              = fst (orb_loop d cv (pre @ post) (0, None)))
       \<and> (0 < MIN_INLIERS d \<and> bestInliers v = 0 \<longrightarrow>
            fst (fallback_stage (d\<lparr>refs := pre @ r # post\<rparr>) cv v)
              = fst (fallback_stage (d\<lparr>refs := pre @ post\<rparr>) cv v))
       \<and> ((\<forall>x \<in> set (pre @ r # post). knnMatch cv x \<noteq> None) \<longrightarrow>
            (\<exists>a. fst (orb_loop d cv (pre @ r # post) (0, None)) = Inr a))"
proof -
  have any: "fst (orb_loop d cv (pre @ r # post) (bi, bq))
             = fst (orb_loop d cv (pre @ post) (bi, bq))" if "bi < MIN_INLIERS d" for bi bq
    using orb_loop_failed_anywhere [OF assms, of "(bi, bq)" pre post] that by simp
  have stage: "fst (fallback_stage (d\<lparr>refs := pre @ r # post\<rparr>) cv v)
              = fst (fallback_stage (d\<lparr>refs := pre @ post\<rparr>) cv v)"
    if "0 < MIN_INLIERS d" and "bestInliers v = 0"
  proof -
    from that have "fst (orb_loop d cv (pre @ r # post) (bestInliers v, bestQuad v))
             = fst (orb_loop d cv (pre @ post) (bestInliers v, bestQuad v))"
      using any [of "bestInliers v" "bestQuad v"] by simp
    then show ?thesis by (simp add: fst_fallback_stage split: option.splits sum.splits)
  qed
  from orb_loop_failed_head [OF assms, of acc rs] any [of 0 None] stage
    orb_loop_completes [of "pre @ r # post" cv d "(0, None)"]
  show ?thesis by blast
qed

theorem failed_fit_is_skipped_witness:
  "knnMatch frame_first_fit_fails ref_a = Some [near_pair 0, near_pair 1, near_pair 2, near_pair 3]
   \<and> findHomography frame_first_fit_fails ref_a
        (ratio_test (CONF_RATIO constructor) [near_pair 0, near_pair 1, near_pair 2, near_pair 3]) = FitEmpty
   \<and> 0 < MIN_INLIERS constructor
   \<and> fst (orb_loop constructor frame_first_fit_fails ([] @ ref_a # [ref_b]) (0, None))
       = Inr (10, Some (ref_corners ref_b))
   \<and> fst (orb_loop constructor frame_first_fit_fails ([] @ [ref_b]) (0, None))
       = Inr (10, Some (ref_corners ref_b))"
proof -
  have a: "knnMatch frame_first_fit_fails ref_a
           = Some [near_pair 0, near_pair 1, near_pair 2, near_pair 3]"
    by (simp add: ref_a_def ref_b_def frame_first_fit_fails_def constructor_def
             build_reference_def)
  have b: "findHomography frame_first_fit_fails ref_a
        (ratio_test (CONF_RATIO constructor) [near_pair 0, near_pair 1, near_pair 2, near_pair 3])
          = FitThrows
      \<or> findHomography frame_first_fit_fails ref_a
        (ratio_test (CONF_RATIO constructor) [near_pair 0, near_pair 1, near_pair 2, near_pair 3])
          = FitEmpty"
    by (simp add: ref_a_def ref_b_def frame_first_fit_fails_def constructor_def
             build_reference_def)
  have c: "0 < MIN_INLIERS constructor" by (simp add: constructor_def)
  have e: "fst (orb_loop constructor frame_first_fit_fails ([] @ [ref_b]) (0, None))
       = Inr (10, Some (ref_corners ref_b))"
    by (simp add: ref_a_def ref_b_def frame_first_fit_fails_def constructor_def
             build_reference_def cyc_defs)
  from failed_fit_is_skipped [OF a b, of "(0, None)" "[]" "[]" "[ref_b]" init_vars] c
  have k: "fst (orb_loop constructor frame_first_fit_fails ([] @ ref_a # [ref_b]) (0, None))
       = fst (orb_loop constructor frame_first_fit_fails ([] @ [ref_b]) (0, None))"
    by blast
  have b': "findHomography frame_first_fit_fails ref_a
        (ratio_test (CONF_RATIO constructor) [near_pair 0, near_pair 1, near_pair 2, near_pair 3])
          = FitEmpty"
    by (simp add: ref_a_def ref_b_def frame_first_fit_fails_def constructor_def
             build_reference_def)
  from k e have "fst (orb_loop constructor frame_first_fit_fails ([] @ ref_a # [ref_b]) (0, None))
       = Inr (10, Some (ref_corners ref_b))"
    by (rule trans)
  with a b' c e show ?thesis by blast
qed

subsection \<open>Early exit of the fallback loop\<close>





text \<open>The overlay switch is set by the constructor and changed by no operation.\<close>

lemma SHOW_DEBUG_cycle: "SHOW_DEBUG (cycle d cv) = SHOW_DEBUG d"
  by (simp add: cycle_def decide_def Let_def stopDetection_def split: sum.splits)

lemma SHOW_DEBUG_animation_frame: "SHOW_DEBUG (snd (animation_frame ts cv ls d)) = SHOW_DEBUG d"
  by (induction ls arbitrary: d) (simp_all add: loop_def SHOW_DEBUG_cycle split: option.splits)

lemma SHOW_DEBUG_handle: "SHOW_DEBUG (snd (handle s e)) = SHOW_DEBUG (snd s)"
proof (cases s)
  case (Pair ls d)
  show ?thesis
  proof (cases e)
    case (Start ui ok)
    with Pair show ?thesis
      by (simp add: startDetection_def updateSettings_def Let_def split: option.splits)
  next
    case Stop
    with Pair show ?thesis by (simp add: stopDetection_def)
  next
    case (Frame ts cv)
    with Pair show ?thesis by (simp add: SHOW_DEBUG_animation_frame)
  qed
qed

lemma SHOW_DEBUG_run: "SHOW_DEBUG (snd (run s es)) = SHOW_DEBUG (snd s)"
  by (induction es arbitrary: s) (simp_all add: SHOW_DEBUG_handle)

lemma SHOW_DEBUG_loaded:
  "SHOW_DEBUG (snd (run (ls, loadReferenceImages env constructor) es))"
  "SHOW_DEBUG (snd (run (ls, fst (loadCustomReferenceImages fs constructor)) es))"
  by (simp_all add: SHOW_DEBUG_run loadReferenceImages_def loadCustomReferenceImages_def
        Let_def constructor_def)




end
